theory Spec2Isabelle
  imports Complex_Main
begin

chapter \<open>Polymarket data collector: dashboard helpers and collection pipeline\<close>

section \<open>Dashboard: building request URLs\<close>

text \<open>
  \<open>src/frontend/src/lib/hooks.ts\<close> holds the hook \<open>useApiData\<close> and, after it, two
  versions of the module \<open>lib/api.ts\<close> with the function \<open>buildUrl\<close>: the first builds the
  URL by string concatenation and \<open>URLSearchParams\<close>, the second with the \<open>URL\<close> class.
\<close>

subsection \<open>Values of a parameter object\<close>

text \<open>
  The parameter object of \<open>buildUrl\<close> has the TypeScript type
  \<open>{[key: string]: string | number | undefined}\<close>. A value is one of the three
  alternatives; numbers are kept abstract (type \<open>'n\<close>) and the conversion
  \<open>String(value)\<close> of a number is the platform's, taken as the parameter \<open>num_str\<close>.
  Strings are byte strings (their UTF-8 encoding), which is what percent-encoding works on.
  The parameter object is given by \<open>Object.entries(params)\<close>: the list of its
  key/value pairs in enumeration order. The keys of an object are pairwise distinct.
\<close>

datatype 'n jsval = Undefined | Str string | Num 'n

fun String_js :: "('n \<Rightarrow> string) \<Rightarrow> 'n jsval \<Rightarrow> string" where
  "String_js num_str Undefined = ''undefined''"
| "String_js num_str (Str s) = s"
| "String_js num_str (Num n) = num_str n"

text \<open>The test \<open>value !== undefined && value !== ""\<close> of both versions of \<open>buildUrl\<close>.\<close>

fun is_set :: "'n jsval \<Rightarrow> bool" where
  "is_set Undefined = False"
| "is_set (Str s) = (s \<noteq> [])"
| "is_set (Num n) = True"

subsection \<open>URLSearchParams\<close>

text \<open>
  A \<open>URLSearchParams\<close> object holds a list of name/value pairs. \<open>set(name, value)\<close>:
  if the list has a pair of that name, the first such pair gets the value and the others
  are removed; otherwise the pair is appended.
\<close>

type_synonym search_params = "(string \<times> string) list"

fun set_first :: "string \<Rightarrow> string \<Rightarrow> search_params \<Rightarrow> search_params" where
  "set_first k v [] = []"
| "set_first k v (p # ps) =
     (if fst p = k then (k, v) # filter (\<lambda>q. fst q \<noteq> k) ps else p # set_first k v ps)"

definition searchParams_set :: "string \<Rightarrow> string \<Rightarrow> search_params \<Rightarrow> search_params" where
  "searchParams_set k v ps = (if k \<in> set (map fst ps) then set_first k v ps else ps @ [(k, v)])"

text \<open>
  \<open>toString()\<close> is the application/x-www-form-urlencoded serializer: a byte is left as it
  is when it is an ASCII letter or digit or one of \<open>* - . _\<close>, a space becomes \<open>+\<close>, every
  other byte becomes \<open>%\<close> and two upper-case hexadecimal digits; pairs are written
  \<open>name=value\<close> and joined by \<open>&\<close>.
\<close>

definition form_safe :: "char \<Rightarrow> bool" where
  "form_safe c =
     (c \<in> set ''ABCDEFGHIJKLMNOPQRSTUVWXYZabcdefghijklmnopqrstuvwxyz0123456789*-._'')"

definition hex_digit :: "nat \<Rightarrow> char" where
  "hex_digit n = ''0123456789ABCDEF'' ! (n mod 16)"

definition percent_encode_byte :: "char \<Rightarrow> string" where
  "percent_encode_byte c =
     [CHR ''%'', hex_digit (of_char c div 16), hex_digit (of_char c mod 16)]"

definition form_encode_char :: "char \<Rightarrow> string" where
  "form_encode_char c =
     (if c = CHR '' '' then ''+'' else if form_safe c then [c] else percent_encode_byte c)"

definition form_encode :: "string \<Rightarrow> string" where
  "form_encode s = concat (map form_encode_char s)"

definition form_pair :: "string \<times> string \<Rightarrow> string" where
  "form_pair p = form_encode (fst p) @ ''='' @ form_encode (snd p)"

text \<open>The serializer's loop: an \<open>&\<close> goes before a pair when the output is not empty.\<close>

definition serialize_step :: "string \<times> string \<Rightarrow> string \<Rightarrow> string" where
  "serialize_step p out = (if out \<noteq> [] then out @ ''&'' @ form_pair p else form_pair p)"

definition searchParams_toString :: "search_params \<Rightarrow> string" where
  "searchParams_toString ps = fold serialize_step ps []"

subsection \<open>buildUrl, first version (URLSearchParams and string concatenation)\<close>

text \<open>
  \<open>const API_URL = process.env.NEXT_PUBLIC_API_URL || ""\<close>: the environment variable is
  undefined (\<open>None\<close>) or a string, and \<open>||\<close> takes the right operand when the left one is
  undefined or empty.
\<close>

definition API_URL :: "string option \<Rightarrow> string" where
  "API_URL env = (case env of None \<Rightarrow> [] | Some s \<Rightarrow> if s = [] then [] else s)"

definition add_param :: "('n \<Rightarrow> string) \<Rightarrow> string \<times> 'n jsval \<Rightarrow> search_params \<Rightarrow> search_params" where
  "add_param num_str kv sp =
     (if is_set (snd kv) then searchParams_set (fst kv) (String_js num_str (snd kv)) sp else sp)"

definition buildUrl ::
  "('n \<Rightarrow> string) \<Rightarrow> string option \<Rightarrow> string \<Rightarrow> (string \<times> 'n jsval) list \<Rightarrow> string" where
  "buildUrl num_str env endpoint params =
     (let path = API_URL env @ ''/api/'' @ endpoint;
          searchParams = fold (add_param num_str) params [];
          qs = searchParams_toString searchParams
      in if qs \<noteq> [] then path @ ''?'' @ qs else path)"

text \<open>
  What it means that a URL includes a query parameter exactly for given pairs: its query
  string has one \<open>name=value\<close> for each pair, in order, the first after \<open>?\<close> and each
  further one after \<open>&\<close>, and there is no \<open>?\<close> when there is no pair. The kept pairs of a
  parameter object are those whose value is neither undefined nor the empty string.
\<close>

fun query_of :: "(string \<times> string) list \<Rightarrow> string" where
  "query_of [] = []"
| "query_of (p # ps) = ''?'' @ form_pair p @ concat (map (\<lambda>q. ''&'' @ form_pair q) ps)"

definition kept_params :: "('n \<Rightarrow> string) \<Rightarrow> (string \<times> 'n jsval) list \<Rightarrow> (string \<times> string) list" where
  "kept_params num_str params =
     map (\<lambda>kv. (fst kv, String_js num_str (snd kv))) (filter (\<lambda>kv. is_set (snd kv)) params)"

subsection \<open>buildUrl, second version (the URL class)\<close>

text \<open>
  A parsed URL, as far as \<open>buildUrl\<close> can tell its parts apart: everything before the
  query (scheme, host, port and path, already serialized), the query (null or a string)
  and the fragment (null or a string). \<open>toString()\<close> is the URL serializer.
\<close>

record url_record =
  url_head :: string
  url_query :: "string option"
  url_fragment :: "string option"

definition href :: "url_record \<Rightarrow> string" where
  "href u =
     url_head u
     @ (case url_query u of None \<Rightarrow> [] | Some q \<Rightarrow> ''?'' @ q)
     @ (case url_fragment u of None \<Rightarrow> [] | Some f \<Rightarrow> ''#'' @ f)"

text \<open>
  The application/x-www-form-urlencoded parser, which fills \<open>url.searchParams\<close> from the
  query when the URL object is made: split at \<open>&\<close>, skip empty pieces, split each piece at
  its first \<open>=\<close>, turn \<open>+\<close> into a space and percent-decode. Names and values are
  kept as bytes here (the platform decodes them as UTF-8).
\<close>

fun split_on :: "char \<Rightarrow> string \<Rightarrow> string list" where
  "split_on c [] = [[]]"
| "split_on c (x # xs) =
     (if x = c then [] # split_on c xs
      else (case split_on c xs of [] \<Rightarrow> [[x]] | w # ws \<Rightarrow> (x # w) # ws))"

definition hex_val :: "char \<Rightarrow> nat option" where
  "hex_val c =
     (let n = (of_char c :: nat) in
      if 48 \<le> n \<and> n \<le> 57 then Some (n - 48)
      else if 65 \<le> n \<and> n \<le> 70 then Some (n - 55)
      else if 97 \<le> n \<and> n \<le> 102 then Some (n - 87)
      else None)"

fun percent_decode :: "string \<Rightarrow> string" where
  "percent_decode (a # b # c # s) =
     (if a = CHR ''%'' then
        (case (hex_val b, hex_val c) of
           (Some h, Some l) \<Rightarrow> char_of (16 * h + l) # percent_decode s
         | _ \<Rightarrow> a # percent_decode (b # c # s))
      else a # percent_decode (b # c # s))"
| "percent_decode (a # s) = a # percent_decode s"
| "percent_decode [] = []"

definition plus_to_space :: "char \<Rightarrow> char" where
  "plus_to_space c = (if c = CHR ''+'' then CHR '' '' else c)"

definition form_parse_pair :: "string \<Rightarrow> string \<times> string" where
  "form_parse_pair bytes =
     (let name = takeWhile (\<lambda>c. c \<noteq> CHR ''='') bytes;
          val = drop 1 (dropWhile (\<lambda>c. c \<noteq> CHR ''='') bytes)
      in (percent_decode (map plus_to_space name), percent_decode (map plus_to_space val)))"

definition form_parse :: "string \<Rightarrow> search_params" where
  "form_parse input = map form_parse_pair (filter (\<lambda>b. b \<noteq> []) (split_on CHR ''&'' input))"

text \<open>
  A URL object is the parsed URL with the list of its \<open>searchParams\<close>. The URL parser of
  the platform is the parameter \<open>parse\<close> (\<open>None\<close>: the constructor throws a TypeError).
  \<open>url.searchParams.set\<close> changes the list and then writes its serialization to the URL's
  query, null when the serialization is empty.
\<close>

type_synonym URL = "url_record \<times> search_params"

definition URL_new :: "(string \<Rightarrow> url_record option) \<Rightarrow> string \<Rightarrow> URL option" where
  "URL_new parse s =
     (case parse s of
        None \<Rightarrow> None
      | Some u \<Rightarrow> Some (u, case url_query u of None \<Rightarrow> [] | Some q \<Rightarrow> form_parse q))"

definition url_searchParams_set :: "string \<Rightarrow> string \<Rightarrow> URL \<Rightarrow> URL" where
  "url_searchParams_set k v url =
     (let l = searchParams_set k v (snd url);
          serializedQuery = searchParams_toString l
      in ((fst url)\<lparr>url_query := (if serializedQuery = [] then None else Some serializedQuery)\<rparr>, l))"

text \<open>\<open>const API_URL = process.env.NEXT_PUBLIC_API_URL || "http://localhost:8000"\<close>\<close>

definition API_URL_local :: "string option \<Rightarrow> string" where
  "API_URL_local env =
     (case env of None \<Rightarrow> ''http://localhost:8000''
      | Some s \<Rightarrow> if s = [] then ''http://localhost:8000'' else s)"

definition add_param_url :: "('n \<Rightarrow> string) \<Rightarrow> string \<times> 'n jsval \<Rightarrow> URL \<Rightarrow> URL" where
  "add_param_url num_str kv url =
     (if is_set (snd kv) then url_searchParams_set (fst kv) (String_js num_str (snd kv)) url
      else url)"

definition buildUrl_URL ::
  "(string \<Rightarrow> url_record option) \<Rightarrow> ('n \<Rightarrow> string) \<Rightarrow> string option \<Rightarrow> string
     \<Rightarrow> (string \<times> 'n jsval) list \<Rightarrow> string option" where
  "buildUrl_URL parse num_str env endpoint params =
     (case URL_new parse (API_URL_local env @ ''/api/'' @ endpoint) of
        None \<Rightarrow> None
      | Some url \<Rightarrow> Some (href (fst (fold (add_param_url num_str) params url))))"

text \<open>
  On a string that is already a URL in normal form the parser rewrites nothing: it only
  cuts the string, the fragment after the first \<open>#\<close> and the query after the first \<open>?\<close>
  before it. This is the parser on such strings.
\<close>

definition cut_at :: "char \<Rightarrow> string \<Rightarrow> string \<times> string option" where
  "cut_at c s =
     (takeWhile (\<lambda>x. x \<noteq> c) s,
      if c \<in> set s then Some (drop 1 (dropWhile (\<lambda>x. x \<noteq> c) s)) else None)"

definition URL_parse_normal :: "string \<Rightarrow> url_record option" where
  "URL_parse_normal s =
     (let (rest, frag) = cut_at CHR ''#'' s; (h, q) = cut_at CHR ''?'' rest
      in Some \<lparr>url_head = h, url_query = q, url_fragment = frag\<rparr>)"

text \<open>
  The query parameters that a URL carries: its query is what stands after the first \<open>?\<close>
  and before the first \<open>#\<close> (what follows the first \<open>#\<close> is the fragment), and the parameters
  are the names and values that the application/x-www-form-urlencoded parser reads from it,
  as \<open>URLSearchParams\<close> and the servers do.
\<close>

definition query_params_of :: "string \<Rightarrow> search_params" where
  "query_params_of url =
     (let (rest, frag) = cut_at CHR ''#'' url; (h, q) = cut_at CHR ''?'' rest
      in case q of None \<Rightarrow> [] | Some qs \<Rightarrow> form_parse qs)"

section \<open>Dashboard: formatting amounts\<close>

text \<open>
  \<open>src/unnamed/part_002\<close> is the module \<open>lib/format.ts\<close> of the dashboard, with
  \<open>formatVolume\<close>.
\<close>

subsection \<open>Numbers and Number.prototype.toFixed\<close>

text \<open>
  A finite JavaScript number is a real number; \<open>NaN\<close> and the infinities are no real
  inputs and are left out. Decimal digits of a natural number:
\<close>

definition digit :: "nat \<Rightarrow> char" where
  "digit n = ''0123456789'' ! (n mod 10)"

fun dec :: "nat \<Rightarrow> string" where
  "dec n = (if n < 10 then [digit n] else dec (n div 10) @ [digit (n mod 10)])"

declare dec.simps [simp del]

text \<open>
  \<open>x.toFixed(f)\<close> after ECMAScript: the sign is split off; a magnitude of at least
  \<open>10\<^sup>2\<^sup>1\<close> is rendered by \<open>Number::toString\<close> (exponent notation; the parameter \<open>ts\<close>);
  otherwise \<open>n\<close> is the integer with \<open>n / 10\<^sup>f\<close> nearest to \<open>x\<close>, the larger one of two,
  its digits are padded with zeros to at least \<open>f + 1\<close> and the point goes before the last
  \<open>f\<close> digits.
\<close>

definition toFixed :: "(real \<Rightarrow> string) \<Rightarrow> nat \<Rightarrow> real \<Rightarrow> string" where
  "toFixed ts f x0 =
     (let s = (if x0 < 0 then ''-'' else []);
          x = \<bar>x0\<bar>
      in if x \<ge> 10 ^ 21 then s @ ts x
         else
           let n = nat \<lfloor>x * 10 ^ f + 1 / 2\<rfloor>;
               m = dec n
           in if f \<noteq> 0 then
                let m' = (if length m \<le> f then replicate (f + 1 - length m) CHR ''0'' @ m else m);
                    k = length m'
                in s @ take (k - f) m' @ ''.'' @ drop (k - f) m'
              else s @ m)"

text \<open>
  The division of two numbers is the IEEE 754 double nearest to the quotient, ties to the
  even significand. \<open>formatVolume\<close> divides only when the quotient is at least 1 (and a
  quotient of doubles by 1000 or 1000000 cannot overflow), so the rounding is written for
  that range: 53 significant bits at the binary exponent of the quotient.
\<close>

fun ilog2 :: "nat \<Rightarrow> nat" where
  "ilog2 n = (if n < 2 then 0 else Suc (ilog2 (n div 2)))"

declare ilog2.simps [simp del]

definition round_half_even :: "real \<Rightarrow> int" where
  "round_half_even x =
     (let n = \<lfloor>x\<rfloor>; r = x - of_int n
      in if r < 1 / 2 then n else if r > 1 / 2 then n + 1 else if even n then n else n + 1)"

definition fl :: "real \<Rightarrow> real" where
  "fl x = (let ulp = 2 ^ ilog2 (nat \<lfloor>x\<rfloor>) / 2 ^ 52 in of_int (round_half_even (x / ulp)) * ulp)"

definition fdiv :: "real \<Rightarrow> real \<Rightarrow> real" where
  "fdiv a b = fl (a / b)"

subsection \<open>formatVolume\<close>

definition formatVolume :: "(real \<Rightarrow> string) \<Rightarrow> real \<Rightarrow> string" where
  "formatVolume ts v =
     (if v \<ge> 1000000 then ''$'' @ toFixed ts 2 (fdiv v 1000000) @ ''M''
      else if v \<ge> 10000 then ''$'' @ toFixed ts 0 (fdiv v 1000) @ ''K''
      else if v \<ge> 1000 then ''$'' @ toFixed ts 1 (fdiv v 1000) @ ''K''
      else ''$'' @ toFixed ts 0 v)"

text \<open>
  What "\<open>x\<close> to \<open>f\<close> decimals" means: sign, the digits of the integer part and, when
  \<open>f > 0\<close>, a point and exactly \<open>f\<close> digits, of the multiple of \<open>10\<^sup>-\<^sup>f\<close> nearest to \<open>x\<close>
  (a tie goes away from zero).
\<close>

fun frac_digits :: "nat \<Rightarrow> nat \<Rightarrow> string" where
  "frac_digits 0 m = []"
| "frac_digits (Suc f) m = frac_digits f (m div 10) @ [digit (m mod 10)]"

definition to_decimals :: "nat \<Rightarrow> real \<Rightarrow> string" where
  "to_decimals f x =
     (let n = nat \<lfloor>\<bar>x\<bar> * 10 ^ f + 1 / 2\<rfloor>
      in (if x < 0 then ''-'' else [])
         @ dec (n div 10 ^ f)
         @ (if f = 0 then [] else ''.'' @ frac_digits f (n mod 10 ^ f)))"

section \<open>Collector: storage, discovery and historical backfill\<close>

text \<open>
  The collector itself (\<open>src/database.py\<close>, \<open>src/market_discovery.py\<close>,
  \<open>src/historical_collector.py\<close> in the README's project structure) is not among the
  sources; the README documents the tables and the commands. The definitions of this section
  are modelled from the specification, sections 3, 4.2, 4.3 and 6, and each says so.
\<close>

subsection \<open>Tables\<close>

text \<open>
  Modelled from the spec: the rows of the tables \<open>markets\<close>, \<open>price_history\<close> and
  \<open>trades\<close> (the code that creates and fills them is missing from the sources; the README
  lists their columns). Section 3: a Market has a unique market id, a condition id, two
  outcome token ids, question, outcomes, start and end date and the discovery timestamp
  (the README's column \<open>created_at\<close>); a PricePoint is unique on (market id, timestamp);
  a Trade is unique on its trade id.
\<close>

record Market =
  market_id :: string
  condition_id :: string
  clob_token_id_yes :: string
  clob_token_id_no :: string
  question :: string
  outcomes :: "string list"
  start_date :: string
  end_date :: string
  discovered_at :: int

record PricePoint =
  pp_market_id :: string
  pp_timestamp :: int
  pp_price :: real

datatype side = BUY | SELL

record Trade =
  tr_market_id :: string
  trade_id :: string
  tr_timestamp :: int
  tr_price :: real
  tr_size :: real
  tr_side :: side
  tr_outcome :: string

record Store =
  markets :: "Market list"
  price_history :: "PricePoint list"
  trades :: "Trade list"

text \<open>
  Modelled from the spec: a market descriptor as the metadata endpoint returns it
  (section 6), the identity and the descriptive fields of a Market without the discovery
  timestamp.
\<close>

record Descriptor =
  d_market_id :: string
  d_condition_id :: string
  d_token_yes :: string
  d_token_no :: string
  d_question :: string
  d_outcomes :: "string list"
  d_start_date :: string
  d_end_date :: string

subsection \<open>The storage contract\<close>

text \<open>
  Modelled from the spec: \<open>listKnownMarkets\<close> of the storage contract (section 6).
\<close>

definition listKnownMarkets :: "Store \<Rightarrow> Market list" where
  "listKnownMarkets s = markets s"

text \<open>
  Modelled from the spec: the test that a market id refers to a previously upserted
  Market (sections 3 and 9).
\<close>

definition known_market :: "Store \<Rightarrow> string \<Rightarrow> bool" where
  "known_market s mid = (mid \<in> set (map market_id (markets s)))"

text \<open>
  Modelled from the spec: \<open>upsertMarket\<close> (sections 3 and 4.2). An existing market id has
  its descriptive fields refreshed, its identity and discovery timestamp stay; a new one is
  inserted with the discovery timestamp.
\<close>

definition refresh :: "Descriptor \<Rightarrow> Market \<Rightarrow> Market" where
  "refresh d m =
     m\<lparr>question := d_question d, outcomes := d_outcomes d,
       start_date := d_start_date d, end_date := d_end_date d\<rparr>"

definition new_market :: "int \<Rightarrow> Descriptor \<Rightarrow> Market" where
  "new_market now d =
     \<lparr>market_id = d_market_id d, condition_id = d_condition_id d,
      clob_token_id_yes = d_token_yes d, clob_token_id_no = d_token_no d,
      question = d_question d, outcomes = d_outcomes d,
      start_date = d_start_date d, end_date = d_end_date d, discovered_at = now\<rparr>"

definition upsert_market_row :: "int \<Rightarrow> Descriptor \<Rightarrow> Market list \<Rightarrow> Market list" where
  "upsert_market_row now d ms =
     (if d_market_id d \<in> set (map market_id ms)
      then map (\<lambda>m. if market_id m = d_market_id d then refresh d m else m) ms
      else ms @ [new_market now d])"

definition upsertMarket :: "int \<Rightarrow> Descriptor \<Rightarrow> Store \<Rightarrow> Store" where
  "upsertMarket now d s = s\<lparr>markets := upsert_market_row now d (markets s)\<rparr>"

text \<open>
  Modelled from the spec: \<open>upsertPricePoint\<close> and \<open>upsertTrade\<close> (sections 3 and 6).
  Both tables are append-only and their rows are never changed afterwards, so a row whose
  key is already stored is left as it is and a new key is appended. The reference to a
  known market is enforced at the write boundary (section 9): a row of an unknown market
  is not written.
\<close>

definition pp_key :: "PricePoint \<Rightarrow> string \<times> int" where
  "pp_key p = (pp_market_id p, pp_timestamp p)"

definition upsertPricePoint :: "PricePoint \<Rightarrow> Store \<Rightarrow> Store" where
  "upsertPricePoint p s =
     (if \<not> known_market s (pp_market_id p) then s
      else if pp_key p \<in> set (map pp_key (price_history s)) then s
      else s\<lparr>price_history := price_history s @ [p]\<rparr>)"

definition upsertTrade :: "Trade \<Rightarrow> Store \<Rightarrow> Store" where
  "upsertTrade t s =
     (if \<not> known_market s (tr_market_id t) then s
      else if trade_id t \<in> set (map trade_id (trades s)) then s
      else s\<lparr>trades := trades s @ [t]\<rparr>)"

subsection \<open>MarketDiscovery\<close>

text \<open>
  Modelled from the spec: the inputs of MarketDiscovery (section 4.2; \<open>src/config.py\<close> is
  missing): free-text search terms, team-name terms, event-type phrases, the include-closed
  flag and the fixed validation keywords.
\<close>

record DiscoveryConfig =
  search_terms :: "string list"
  team_terms :: "string list"
  event_phrases :: "string list"
  include_closed :: bool
  validation_keywords :: "string list"

definition all_terms :: "DiscoveryConfig \<Rightarrow> string list" where
  "all_terms cfg = search_terms cfg @ team_terms cfg @ event_phrases cfg"

text \<open>
  Modelled from the spec: the metadata endpoint (section 6). For a term and the
  include-closed flag the remote side has a finite list of pages; the request of a page
  returns its market descriptors or fails (\<open>None\<close>: a network or parse failure).
\<close>

type_synonym metadata_api = "string \<Rightarrow> bool \<Rightarrow> (Descriptor list) option list"

text \<open>
  Modelled from the spec: the paginated queries of one term (section 4.2). A failure of a
  page is the failure of the term, which is then skipped.
\<close>

fun fetch_pages :: "(Descriptor list) option list \<Rightarrow> (Descriptor list) option" where
  "fetch_pages [] = Some []"
| "fetch_pages (None # pages) = None"
| "fetch_pages (Some hits # pages) =
     (case fetch_pages pages of None \<Rightarrow> None | Some others \<Rightarrow> Some (hits @ others))"

text \<open>
  Modelled from the spec: the validation filter (section 4.2). A hit is kept when its
  question contains one of the validation keywords.
\<close>

fun contains :: "string \<Rightarrow> string \<Rightarrow> bool" where
  "contains kw [] = (kw = [])"
| "contains kw (c # s) = (take (length kw) (c # s) = kw \<or> contains kw s)"

definition validates :: "DiscoveryConfig \<Rightarrow> Descriptor \<Rightarrow> bool" where
  "validates cfg d = list_ex (\<lambda>kw. contains kw (d_question d)) (validation_keywords cfg)"

text \<open>
  Modelled from the spec: the hits of one term (section 4.2): the validated hits of its
  pages, or none when the term failed.
\<close>

definition term_hits :: "DiscoveryConfig \<Rightarrow> metadata_api \<Rightarrow> string \<Rightarrow> Descriptor list" where
  "term_hits cfg api t =
     (case fetch_pages (api t (include_closed cfg)) of
        None \<Rightarrow> []
      | Some hits \<Rightarrow> filter (validates cfg) hits)"

text \<open>
  Modelled from the spec: deduplication by market id across all terms, before writing
  (section 4.2). The first hit of a market id is kept.
\<close>

definition dedup_step :: "Descriptor \<Rightarrow> Descriptor list \<Rightarrow> Descriptor list" where
  "dedup_step d seen = (if d_market_id d \<in> set (map d_market_id seen) then seen else seen @ [d])"

definition dedup_by_market_id :: "Descriptor list \<Rightarrow> Descriptor list" where
  "dedup_by_market_id hits = fold dedup_step hits []"

text \<open>
  Modelled from the spec: one discovery run (section 4.2). It returns the number of newly
  found markets, the number of previously known ones and the store.
\<close>

definition discover :: "DiscoveryConfig \<Rightarrow> metadata_api \<Rightarrow> int \<Rightarrow> Store \<Rightarrow> nat \<times> nat \<times> Store" where
  "discover cfg api now s =
     (let hits = concat (map (term_hits cfg api) (all_terms cfg));
          unique = dedup_by_market_id hits;
          fresh = filter (\<lambda>d. \<not> known_market s (d_market_id d)) unique
      in (length fresh, length unique - length fresh, fold (upsertMarket now) unique s))"

subsection \<open>HistoricalCollector\<close>

text \<open>
  Modelled from the spec: the price-history and trade-history endpoints (section 6). A
  price-history request names a token id, the bounds of the window and the interval, and a
  request may be repeated: the answer to the attempt of a given number is the list of
  (timestamp, price) pairs, or a failure. The trade history of a condition id is a finite
  list of pages of at most the given number of records, walked by the cursor; each page
  answers an attempt with its trade records or a failure.
\<close>

record RawTrade =
  raw_id :: string
  raw_timestamp :: int
  raw_price :: real
  raw_size :: real
  raw_side :: side
  raw_outcome :: string

record Remote =
  price_history_api :: "string \<Rightarrow> int \<Rightarrow> int \<Rightarrow> nat \<Rightarrow> nat \<Rightarrow> ((int \<times> real) list) option"
  trade_history_api :: "string \<Rightarrow> nat \<Rightarrow> (nat \<Rightarrow> (RawTrade list) option) list"

text \<open>
  Modelled from the spec: the settings of HistoricalCollector (section 4.3): the interval
  of the price history, the cap on the records of a request and the cap on the attempts of
  a page.
\<close>

record HistoricalConfig =
  interval :: nat
  max_records :: nat
  max_attempts :: nat

text \<open>
  Modelled from the spec: the bounded retry of a request (section 4.3). Attempts
  \<open>i, i + 1, \<dots>\<close> are made until one succeeds or the cap is used up. The waits between
  attempts and the admission by the RateLimiter take time and store nothing; they are not
  part of this model.
\<close>

fun retry :: "nat \<Rightarrow> nat \<Rightarrow> (nat \<Rightarrow> 'a option) \<Rightarrow> 'a option" where
  "retry 0 i request = None"
| "retry (Suc n) i request =
     (case request i of Some r \<Rightarrow> Some r | None \<Rightarrow> retry n (Suc i) request)"

text \<open>
  Modelled from the spec: the rows made of the remote side's records (section 3): a price
  point and a trade carry the market id of the market they were fetched for.
\<close>

definition to_price_point :: "Market \<Rightarrow> int \<times> real \<Rightarrow> PricePoint" where
  "to_price_point m tp = \<lparr>pp_market_id = market_id m, pp_timestamp = fst tp, pp_price = snd tp\<rparr>"

definition to_trade :: "Market \<Rightarrow> RawTrade \<Rightarrow> Trade" where
  "to_trade m r =
     \<lparr>tr_market_id = market_id m, trade_id = raw_id r, tr_timestamp = raw_timestamp r,
      tr_price = raw_price r, tr_size = raw_size r, tr_side = raw_side r,
      tr_outcome = raw_outcome r\<rparr>"

text \<open>
  Modelled from the spec: the backfill of one market (section 4.3): (a) the price history
  of the window, (b) the trade history page by page. A page that fails on every attempt
  ends the work on this market for this run; what was written stays.
\<close>

fun collect_trades ::
  "HistoricalConfig \<Rightarrow> Market \<Rightarrow> (nat \<Rightarrow> (RawTrade list) option) list \<Rightarrow> Store \<Rightarrow> Store" where
  "collect_trades cfg m [] s = s"
| "collect_trades cfg m (page # pages) s =
     (case retry (max_attempts cfg) 0 page of
        None \<Rightarrow> s
      | Some records \<Rightarrow>
          collect_trades cfg m pages (fold (\<lambda>r. upsertTrade (to_trade m r)) records s))"

definition collect_market ::
  "HistoricalConfig \<Rightarrow> Remote \<Rightarrow> int \<times> int \<Rightarrow> Market \<Rightarrow> Store \<Rightarrow> Store" where
  "collect_market cfg remote window m s =
     (case retry (max_attempts cfg) 0
             (price_history_api remote (clob_token_id_yes m) (fst window) (snd window)
                (interval cfg)) of
        None \<Rightarrow> s
      | Some points \<Rightarrow>
          collect_trades cfg m (trade_history_api remote (condition_id m) (max_records cfg))
            (fold (\<lambda>tp. upsertPricePoint (to_price_point m tp)) points s))"

text \<open>
  Modelled from the spec: one run of HistoricalCollector over a window (section 4.3): every
  known market in turn.
\<close>

definition run_historical ::
  "HistoricalConfig \<Rightarrow> Remote \<Rightarrow> int \<times> int \<Rightarrow> Store \<Rightarrow> Store" where
  "run_historical cfg remote window s =
     fold (collect_market cfg remote window) (listKnownMarkets s) s"

text \<open>
  Modelled from the spec: the end-to-end scenario of section 8. Market \<open>M\<close> with token \<open>T\<close>
  is found by three of the four terms (the fourth term fails); the remote side has three
  price points (\<open>t = 100, 200, 300\<close> with prices \<open>0.40, 0.45, 0.50\<close>) and two trades
  (\<open>a\<close> and \<open>b\<close>), whose page fails on the first attempt.
\<close>

definition scenario_market :: Descriptor where
  "scenario_market =
     \<lparr>d_market_id = ''M'', d_condition_id = ''C'', d_token_yes = ''T'', d_token_no = ''U'',
      d_question = ''Will OpTic Texas win the cdl major?'', d_outcomes = [''Yes'', ''No''],
      d_start_date = ''2026-01-01'', d_end_date = ''2026-01-04''\<rparr>"

definition scenario_remote :: Remote where
  "scenario_remote =
     \<lparr>price_history_api = (\<lambda>token t0 t1 step attempt.
        if token = ''T'' then Some [(100, 2 / 5), (200, 9 / 20), (300, 1 / 2)] else None),
      trade_history_api = (\<lambda>cond limit.
        if cond = ''C'' then
          [\<lambda>attempt. if attempt = 0 then None else Some
            [\<lparr>raw_id = ''a'', raw_timestamp = 150, raw_price = 2 / 5, raw_size = 10,
              raw_side = BUY, raw_outcome = ''Yes''\<rparr>,
             \<lparr>raw_id = ''b'', raw_timestamp = 250, raw_price = 9 / 20, raw_size = 5,
              raw_side = SELL, raw_outcome = ''Yes''\<rparr>]]
        else [])\<rparr>"

definition scenario_config :: HistoricalConfig where
  "scenario_config = \<lparr>interval = 60, max_records = 10000, max_attempts = 3\<rparr>"

definition scenario_discovery :: DiscoveryConfig where
  "scenario_discovery =
     \<lparr>search_terms = [''call of duty'', ''cdl''], team_terms = [''OpTic Texas''],
      event_phrases = [''cdl major''], include_closed = False,
      validation_keywords = [''cdl'', ''call of duty'']\<rparr>"

definition scenario_metadata :: metadata_api where
  "scenario_metadata term incl =
     (if term = ''cdl'' \<or> term = ''OpTic Texas'' \<or> term = ''cdl major''
      then [Some [scenario_market]]
      else if term = ''call of duty'' then [None]
      else [])"

definition empty_store :: Store where
  "empty_store = \<lparr>markets = [], price_history = [], trades = []\<rparr>"

subsection \<open>Notions for the proofs\<close>

text \<open>
  A store extends another one when it has the same markets and at least its keys of price
  points and trades. A step on the store is extensive when its result extends its
  argument, and absorbing when it changes no store that extends one of its results.
\<close>

definition extends :: "Store \<Rightarrow> Store \<Rightarrow> bool" where
  "extends s s' =
     (markets s' = markets s
      \<and> set (map pp_key (price_history s)) \<subseteq> set (map pp_key (price_history s'))
      \<and> set (map trade_id (trades s)) \<subseteq> set (map trade_id (trades s')))"

definition extensive :: "(Store \<Rightarrow> Store) \<Rightarrow> bool" where
  "extensive f = (\<forall>s. extends s (f s))"

definition absorbing :: "(Store \<Rightarrow> Store) \<Rightarrow> bool" where
  "absorbing f = (\<forall>s s'. extends (f s) s' \<longrightarrow> f s' = s')"

definition settled :: "(Store \<Rightarrow> Store) \<Rightarrow> bool" where
  "settled f = (extensive f \<and> absorbing f)"

section \<open>Collector: RateLimiter\<close>

text \<open>
  The limiter (\<open>src/utils.py\<close> in the README's project structure) is not among the
  sources; the README gives the quotas. The definitions of this section are modelled from
  the specification, section 4.1, and each says so.
\<close>

text \<open>
  Modelled from the spec: the named endpoint classes and their fixed quotas per 10 seconds
  (section 4.1, with the README's table: Gamma API markets 300, Gamma API events 500, CLOB
  API prices 1500, Data API trades 200).
\<close>

datatype endpoint_class = Gamma_markets | Gamma_events | CLOB_prices | Data_trades

fun readme_quota :: "endpoint_class \<Rightarrow> nat" where
  "readme_quota Gamma_markets = 300"
| "readme_quota Gamma_events = 500"
| "readme_quota CLOB_prices = 1500"
| "readme_quota Data_trades = 200"

text \<open>
  Modelled from the spec: the trailing window of 10 seconds and the rolling count (section
  4.1). Time is a real number of seconds. The limiter keeps, for every class, the times of
  the calls it admitted, the latest first; the rolling count at a time \<open>t\<close> is the number
  of admissions in the window \<open>(t - 10, t]\<close>.
\<close>

definition quota_window :: real where
  "quota_window = 10"

type_synonym limiter = "endpoint_class \<Rightarrow> real list"

definition rolling_count :: "real list \<Rightarrow> real \<Rightarrow> nat" where
  "rolling_count admitted t = length (filter (\<lambda>a. t - quota_window < a \<and> a \<le> t) admitted)"

text \<open>
  Modelled from the spec: the synchronization of the callers of one class (section 4.1: one
  shared limiter instance, internally synchronized). Concurrent callers enter the limiter
  one after the other, and a caller stays in it until it is admitted; so a caller that
  arrived at some time enters at that time or at the latest admission, whichever is later.
\<close>

definition entry_time :: "real list \<Rightarrow> real \<Rightarrow> real" where
  "entry_time admitted arrival = (case admitted of [] \<Rightarrow> arrival | a # _ \<Rightarrow> max arrival a)"

text \<open>
  Modelled from the spec: the admission (section 4.1). With the rolling count below the
  quota the caller is admitted at once; otherwise it is suspended until the admission that
  fills the quota, the \<open>q\<close>-th latest, has left the window.
\<close>

definition admission_time :: "nat \<Rightarrow> real list \<Rightarrow> real \<Rightarrow> real" where
  "admission_time q admitted arrival =
     (let t0 = entry_time admitted arrival
      in if rolling_count admitted t0 < q then t0 else admitted ! (q - 1) + quota_window)"

text \<open>
  Modelled from the spec: \<open>acquire(class)\<close> (section 4.1), called at the time \<open>arrival\<close>. It
  returns the time of the admission and the limiter with the admission recorded. With a
  quota of 0 no admission is ever possible and the caller stays suspended (\<open>None\<close>).
\<close>

definition acquire ::
  "(endpoint_class \<Rightarrow> nat) \<Rightarrow> endpoint_class \<Rightarrow> real \<Rightarrow> limiter \<Rightarrow> (real \<times> limiter) option" where
  "acquire quota c arrival L =
     (if quota c = 0 then None
      else let t = admission_time (quota c) (L c) arrival in Some (t, L(c := t # L c)))"

text \<open>
  Modelled from the spec: callers of \<open>acquire\<close>, concurrent or not (section 4.1 and 5). A
  call is a class and the time of its arrival; the calls are listed in the order in which
  the limiter serves them, whatever their arrival times. The result is the list of the
  admission times, call by call, and the limiter.
\<close>

fun serve ::
  "(endpoint_class \<Rightarrow> nat) \<Rightarrow> (endpoint_class \<times> real) list \<Rightarrow> limiter
     \<Rightarrow> (real list \<times> limiter) option" where
  "serve quota [] L = Some ([], L)"
| "serve quota (call # calls) L =
     (case acquire quota (fst call) (snd call) L of
        None \<Rightarrow> None
      | Some (t, L') \<Rightarrow>
          (case serve quota calls L' of
             None \<Rightarrow> None
           | Some (ts, L'') \<Rightarrow> Some (t # ts, L'')))"

definition new_limiter :: limiter where
  "new_limiter = (\<lambda>c. [])"

text \<open>The admission times of the calls of one class, in the order of the calls.\<close>

definition admissions_of :: "endpoint_class \<Rightarrow> (endpoint_class \<times> real) list \<Rightarrow> real list \<Rightarrow> real list" where
  "admissions_of c calls ts = map snd (filter (\<lambda>p. fst (fst p) = c) (zip calls ts))"

text \<open>
  The state of one class that the proofs keep: the admissions are in order of time and no
  trailing window holds more than the quota.
\<close>

definition within_quota :: "nat \<Rightarrow> real list \<Rightarrow> bool" where
  "within_quota q admitted = (sorted (rev admitted) \<and> (\<forall>w. rolling_count admitted w \<le> q))"

section \<open>Verification: request URLs\<close>

lemma set_first_nonempty: "ps \<noteq> [] \<Longrightarrow> set_first k v ps \<noteq> []"
  by (cases ps) simp_all

lemma searchParams_set_nonempty: "searchParams_set k v ps \<noteq> []"
  by (cases ps) (simp_all add: searchParams_set_def)

lemma add_param_nonempty: "sp \<noteq> [] \<Longrightarrow> add_param num_str kv sp \<noteq> []"
  by (simp add: add_param_def searchParams_set_nonempty)

lemma fold_add_param_nonempty: "sp \<noteq> [] \<Longrightarrow> fold (add_param num_str) params sp \<noteq> []"
  by (induction params arbitrary: sp) (simp_all add: add_param_nonempty)

lemma fold_add_param_none:
  "filter (\<lambda>kv. is_set (snd kv)) params = [] \<Longrightarrow> fold (add_param num_str) params sp = sp"
proof (induction params arbitrary: sp)
  case (Cons kv params)
  have "\<not> is_set (snd kv)" using Cons.prems by (simp split: if_splits)
  then have "add_param num_str kv sp = sp" by (simp add: add_param_def)
  moreover have "filter (\<lambda>kv. is_set (snd kv)) params = []" using Cons.prems by (simp split: if_splits)
  ultimately show ?case using Cons.IH by simp
qed simp

lemma fold_add_param_some:
  "filter (\<lambda>kv. is_set (snd kv)) params \<noteq> [] \<Longrightarrow> fold (add_param num_str) params sp \<noteq> []"
proof (induction params arbitrary: sp)
  case (Cons kv params)
  show ?case
  proof (cases "is_set (snd kv)")
    case True
    then have "add_param num_str kv sp \<noteq> []" by (simp add: add_param_def searchParams_set_nonempty)
    then show ?thesis by (simp add: fold_add_param_nonempty)
  next
    case False
    then have "add_param num_str kv sp = sp" by (simp add: add_param_def)
    moreover have "filter (\<lambda>kv. is_set (snd kv)) params \<noteq> []" using Cons.prems False by simp
    ultimately show ?thesis using Cons.IH by simp
  qed
qed simp

lemma form_pair_nonempty: "form_pair p \<noteq> []"
  by (simp add: form_pair_def)

lemma fold_serialize_nonempty:
  "out \<noteq> [] \<Longrightarrow> fold serialize_step ps out = out @ concat (map (\<lambda>q. ''&'' @ form_pair q) ps)"
  by (induction ps arbitrary: out) (simp_all add: serialize_step_def)

lemma searchParams_toString_Cons:
  "searchParams_toString (p # ps) = form_pair p @ concat (map (\<lambda>q. ''&'' @ form_pair q) ps)"
  by (simp add: searchParams_toString_def serialize_step_def fold_serialize_nonempty form_pair_nonempty)

lemma searchParams_toString_Nil: "searchParams_toString [] = []"
  by (simp add: searchParams_toString_def)

lemma searchParams_toString_empty_iff: "searchParams_toString ps = [] \<longleftrightarrow> ps = []"
  by (cases ps) (simp_all add: searchParams_toString_Cons searchParams_toString_Nil form_pair_nonempty)

lemma fold_add_param_url:
  "fold (add_param_url num_str) params (u, l) =
     (if filter (\<lambda>kv. is_set (snd kv)) params = [] then (u, l)
      else (u\<lparr>url_query := Some (searchParams_toString (fold (add_param num_str) params l))\<rparr>,
            fold (add_param num_str) params l))"
proof (induction params arbitrary: u l)
  case Nil
  then show ?case by simp
next
  case (Cons kv params)
  show ?case
  proof (cases "is_set (snd kv)")
    case False
    have "add_param_url num_str kv (u, l) = (u, l)" "add_param num_str kv l = l"
      using False by (simp_all add: add_param_url_def add_param_def)
    then show ?thesis using False Cons.IH [of u l] by simp
  next
    case True
    define l' where "l' = searchParams_set (fst kv) (String_js num_str (snd kv)) l"
    define u' where "u' = u\<lparr>url_query := Some (searchParams_toString l')\<rparr>"
    have ne: "searchParams_toString l' \<noteq> []"
      by (simp add: l'_def searchParams_toString_empty_iff searchParams_set_nonempty)
    have step: "add_param_url num_str kv (u, l) = (u', l')"
      using True ne by (simp add: add_param_url_def url_searchParams_set_def Let_def l'_def u'_def)
    have step2: "add_param num_str kv l = l'"
      using True by (simp add: add_param_def l'_def)
    show ?thesis
    proof (cases "filter (\<lambda>kv. is_set (snd kv)) params = []")
      case True
      have "fold (add_param num_str) params l' = l'"
        using True by (simp add: fold_add_param_none)
      then show ?thesis using True \<open>is_set (snd kv)\<close> step step2 Cons.IH [of u' l']
        by (simp add: u'_def)
    next
      case False
      then show ?thesis using \<open>is_set (snd kv)\<close> step step2 Cons.IH [of u' l']
        by (simp add: u'_def)
    qed
  qed
qed

lemma href_no_marks:
  assumes "href u = p" "CHR ''?'' \<notin> set p" "CHR ''#'' \<notin> set p"
  shows "url_query u = None \<and> url_fragment u = None \<and> url_head u = p"
proof -
  have q: "url_query u = None"
  proof (cases "url_query u")
    case (Some q)
    then have "CHR ''?'' \<in> set (href u)" by (simp add: href_def)
    then show ?thesis using assms by simp
  qed simp
  have f: "url_fragment u = None"
  proof (cases "url_fragment u")
    case (Some q)
    then have "CHR ''#'' \<in> set (href u)" by (simp add: href_def)
    then show ?thesis using assms by simp
  qed simp
  show ?thesis using q f assms(1) by (simp add: href_def)
qed

lemma question_toString: "(if searchParams_toString ps \<noteq> [] then p @ ''?'' @ searchParams_toString ps else p) = p @ query_of ps"
  by (cases ps) (simp_all add: searchParams_toString_Cons searchParams_toString_Nil form_pair_nonempty)

lemma searchParams_set_fresh:
  "k \<notin> set (map fst sp) \<Longrightarrow> searchParams_set k v sp = sp @ [(k, v)]"
  by (simp add: searchParams_set_def)

lemma fold_add_param_distinct:
  "distinct (map fst params) \<Longrightarrow> set (map fst params) \<inter> set (map fst sp) = {} \<Longrightarrow>
   fold (add_param num_str) params sp = sp @ kept_params num_str params"
proof (induction params arbitrary: sp)
  case Nil
  then show ?case by (simp add: kept_params_def)
next
  case (Cons kv params)
  show ?case
  proof (cases "is_set (snd kv)")
    case True
    have fresh: "fst kv \<notin> set (map fst sp)" using Cons.prems(2) by auto
    have step: "add_param num_str kv sp = sp @ [(fst kv, String_js num_str (snd kv))]"
      using True fresh by (simp add: add_param_def searchParams_set_fresh)
    have d: "distinct (map fst params)" using Cons.prems(1) by simp
    have disj: "set (map fst params) \<inter> set (map fst (sp @ [(fst kv, String_js num_str (snd kv))])) = {}"
      using Cons.prems by auto
    show ?thesis
      using Cons.IH [OF d disj] True step by (simp add: kept_params_def)
  next
    case False
    have d: "distinct (map fst params)" using Cons.prems(1) by simp
    have disj: "set (map fst params) \<inter> set (map fst sp) = {}" using Cons.prems(2) by auto
    show ?thesis using Cons.IH [OF d disj] False by (simp add: add_param_def kept_params_def)
  qed
qed

lemma hex_cases: "k < 16 \<Longrightarrow>
  k = 0 \<or> k = 1 \<or> k = 2 \<or> k = 3 \<or> k = 4 \<or> k = 5 \<or> k = 6 \<or> k = 7 \<or> k = 8 \<or> k = 9
  \<or> k = 10 \<or> k = 11 \<or> k = 12 \<or> k = 13 \<or> k = 14 \<or> k = (15::nat)"
  by arith

lemma hex_val_hex_digit: "k < 16 \<Longrightarrow> hex_val (hex_digit k) = Some k"
  by (drule hex_cases) (elim disjE; simp add: hex_digit_def hex_val_def)

lemma hex_digit_plain:
  "k < 16 \<Longrightarrow> plus_to_space (hex_digit k) = hex_digit k"
  by (drule hex_cases) (elim disjE; simp add: hex_digit_def plus_to_space_def)

lemma hex_digit_no_mark:
  "k < 16 \<Longrightarrow> hex_digit k \<noteq> CHR ''&'' \<and> hex_digit k \<noteq> CHR ''=''
     \<and> hex_digit k \<noteq> CHR ''?'' \<and> hex_digit k \<noteq> CHR ''#''"
  by (drule hex_cases) (elim disjE; simp add: hex_digit_def)

lemma form_safe_plain:
  "form_safe c \<Longrightarrow> c \<noteq> CHR ''+'' \<and> c \<noteq> CHR ''%'' \<and> c \<noteq> CHR ''&'' \<and> c \<noteq> CHR ''=''
     \<and> c \<noteq> CHR ''?'' \<and> c \<noteq> CHR ''#''"
  by (auto simp: form_safe_def)

lemma percent_decode_plain: "a \<noteq> CHR ''%'' \<Longrightarrow> percent_decode (a # s) = a # percent_decode s"
proof (cases s)
  case Nil
  then show ?thesis by simp
next
  case (Cons b t)
  assume a: "a \<noteq> CHR ''%''"
  show ?thesis
  proof (cases t)
    case Nil
    then show ?thesis using Cons by simp
  next
    case (Cons c u)
    then show ?thesis using \<open>s = b # t\<close> a by simp
  qed
qed

lemma percent_decode_triple:
  "hex_val b = Some h \<Longrightarrow> hex_val c = Some l \<Longrightarrow>
   percent_decode (CHR ''%'' # b # c # s) = char_of (16 * h + l) # percent_decode s"
  by simp

lemma byte_halves: "(of_char c :: nat) div 16 < 16" "(of_char c :: nat) mod 16 < 16"
proof -
  have "(of_char c :: nat) < 256" by (rule nat_of_char_less_256)
  then show "(of_char c :: nat) div 16 < 16" by (intro less_mult_imp_div_less) simp
  show "(of_char c :: nat) mod 16 < 16" by simp
qed

lemma decode_encode_char:
  "percent_decode (map plus_to_space (form_encode_char c) @ t) = c # percent_decode t"
proof (cases "c = CHR '' ''")
  case True
  then show ?thesis
    by (simp add: form_encode_char_def plus_to_space_def percent_decode_plain)
next
  case False
  show ?thesis
  proof (cases "form_safe c")
    case True
    then show ?thesis
      using False form_safe_plain [OF True]
      by (simp add: form_encode_char_def plus_to_space_def percent_decode_plain)
  next
    case other: False
    let ?h = "(of_char c :: nat) div 16" and ?l = "(of_char c :: nat) mod 16"
    have enc: "map plus_to_space (form_encode_char c) = [CHR ''%'', hex_digit ?h, hex_digit ?l]"
      using False other byte_halves [of c]
      by (simp add: form_encode_char_def percent_encode_byte_def hex_digit_plain)
         (simp add: plus_to_space_def)
    have whole: "char_of (16 * ?h + ?l) = c"
      by (simp add: mult.commute)
    show ?thesis
      using percent_decode_triple [OF hex_val_hex_digit [OF byte_halves(1)]
          hex_val_hex_digit [OF byte_halves(2)], of c c t]
      by (simp add: enc whole)
  qed
qed

lemma decode_encode: "percent_decode (map plus_to_space (form_encode s)) = s"
proof (induction s)
  case Nil
  then show ?case by (simp add: form_encode_def)
next
  case (Cons c s)
  have "form_encode (c # s) = form_encode_char c @ form_encode s" by (simp add: form_encode_def)
  then show ?case using decode_encode_char [of c "map plus_to_space (form_encode s)"] Cons.IH
    by simp
qed

lemma form_encode_char_no_mark:
  "CHR ''&'' \<notin> set (form_encode_char c) \<and> CHR ''='' \<notin> set (form_encode_char c)
   \<and> CHR ''?'' \<notin> set (form_encode_char c) \<and> CHR ''#'' \<notin> set (form_encode_char c)"
proof (cases "form_safe c")
  case True
  then show ?thesis using form_safe_plain [OF True] by (auto simp: form_encode_char_def)
next
  case False
  then show ?thesis
    using hex_digit_no_mark [OF byte_halves(1), of c] hex_digit_no_mark [OF byte_halves(2), of c]
    by (auto simp: form_encode_char_def percent_encode_byte_def)
qed

lemma form_encode_no_mark:
  "CHR ''&'' \<notin> set (form_encode s) \<and> CHR ''='' \<notin> set (form_encode s)
   \<and> CHR ''?'' \<notin> set (form_encode s) \<and> CHR ''#'' \<notin> set (form_encode s)"
  using form_encode_char_no_mark by (auto simp: form_encode_def)

lemma form_parse_pair_form_pair: "form_parse_pair (form_pair p) = p"
proof -
  have n: "CHR ''='' \<notin> set (form_encode (fst p))" using form_encode_no_mark by simp
  have t: "takeWhile (\<lambda>c. c \<noteq> CHR ''='') (form_pair p) = form_encode (fst p)"
    unfolding form_pair_def using n by (subst takeWhile_append2) auto
  have d: "dropWhile (\<lambda>c. c \<noteq> CHR ''='') (form_pair p) = ''='' @ form_encode (snd p)"
    unfolding form_pair_def using n by (subst dropWhile_append2) auto
  show ?thesis by (simp add: form_parse_pair_def Let_def t d decode_encode)
qed

lemma split_on_none: "c \<notin> set x \<Longrightarrow> split_on c x = [x]"
  by (induction x) auto

lemma split_on_first: "c \<notin> set x \<Longrightarrow> split_on c (x @ c # y) = x # split_on c y"
  by (induction x) auto

lemma form_pair_no_amp: "CHR ''&'' \<notin> set (form_pair p)"
  using form_encode_no_mark by (simp add: form_pair_def)

lemma split_pairs:
  "split_on CHR ''&'' (form_pair p @ concat (map (\<lambda>q. ''&'' @ form_pair q) ps))
   = map form_pair (p # ps)"
proof (induction ps arbitrary: p)
  case Nil
  then show ?case by (simp add: split_on_none form_pair_no_amp)
next
  case (Cons q ps)
  have "split_on CHR ''&'' (form_pair p @ CHR ''&'' # (form_pair q @ concat (map (\<lambda>q. ''&'' @ form_pair q) ps)))
        = form_pair p # split_on CHR ''&'' (form_pair q @ concat (map (\<lambda>q. ''&'' @ form_pair q) ps))"
    by (rule split_on_first) (rule form_pair_no_amp)
  then show ?case using Cons.IH [of q] by simp
qed

lemma form_parse_toString: "form_parse (searchParams_toString ps) = ps"
proof (cases ps)
  case Nil
  then show ?thesis by (simp add: searchParams_toString_Nil form_parse_def)
next
  case (Cons p qs)
  have "filter (\<lambda>b. b \<noteq> []) (map form_pair (p # qs)) = map form_pair (p # qs)"
    by (simp add: filter_id_conv form_pair_nonempty)
  then show ?thesis
    unfolding Cons form_parse_def searchParams_toString_Cons split_pairs
    by (simp add: form_parse_pair_form_pair map_idI)
qed

lemma form_parse_query_of: "form_parse (drop 1 (query_of ps)) = ps"
proof (cases ps)
  case Nil
  then show ?thesis by (simp add: form_parse_def)
next
  case (Cons p qs)
  then show ?thesis
    using form_parse_toString [of "p # qs"] by (simp add: searchParams_toString_Cons)
qed

lemma form_pair_no_cut: "CHR ''?'' \<notin> set (form_pair p) \<and> CHR ''#'' \<notin> set (form_pair p)"
  using form_encode_no_mark by (simp add: form_pair_def)

lemma toString_no_cut:
  "CHR ''?'' \<notin> set (searchParams_toString ps) \<and> CHR ''#'' \<notin> set (searchParams_toString ps)"
proof (cases ps)
  case Nil
  then show ?thesis by (simp add: searchParams_toString_Nil)
next
  case (Cons p qs)
  then show ?thesis using form_pair_no_cut by (auto simp: searchParams_toString_Cons)
qed

lemma cut_at_absent: "c \<notin> set s \<Longrightarrow> cut_at c s = (s, None)"
  by (auto simp: cut_at_def takeWhile_eq_all_conv)

lemma cut_at_first: "c \<notin> set s \<Longrightarrow> cut_at c (s @ c # t) = (s, Some t)"
proof -
  assume a: "c \<notin> set s"
  have 1: "takeWhile (\<lambda>x. x \<noteq> c) (s @ c # t) = s"
    using a by (subst takeWhile_append2) auto
  have 2: "dropWhile (\<lambda>x. x \<noteq> c) (s @ c # t) = c # t"
    using a by (subst dropWhile_append2) auto
  show ?thesis by (simp add: cut_at_def 1 2)
qed

lemma query_params_of_built:
  assumes "CHR ''?'' \<notin> set path" "CHR ''#'' \<notin> set path"
  shows "query_params_of (path @ query_of ps) = ps"
proof (cases ps)
  case Nil
  then show ?thesis using assms by (simp add: query_params_of_def cut_at_absent)
next
  case (Cons p qs)
  let ?qs = "searchParams_toString (p # qs)"
  have q: "query_of ps = CHR ''?'' # ?qs" using Cons by (simp add: searchParams_toString_Cons)
  have "CHR ''#'' \<notin> set (path @ CHR ''?'' # ?qs)"
    using assms(2) toString_no_cut [of "p # qs"] by simp
  then have 1: "cut_at CHR ''#'' (path @ CHR ''?'' # ?qs) = (path @ CHR ''?'' # ?qs, None)"
    by (rule cut_at_absent)
  have 2: "cut_at CHR ''?'' (path @ CHR ''?'' # ?qs) = (path, Some ?qs)"
    using assms(1) by (rule cut_at_first)
  have "query_params_of (path @ query_of ps) = query_params_of (path @ CHR ''?'' # ?qs)"
    by (simp only: q)
  also have "\<dots> = form_parse ?qs"
    by (simp only: query_params_of_def 1 2 Let_def prod.case option.case)
  also have "\<dots> = p # qs" by (rule form_parse_toString)
  finally show ?thesis using Cons by simp
qed

text \<open>
  C8 (as amended). For every endpoint and every parameter object (its entries have pairwise
  distinct keys), \<open>buildUrl\<close> returns \<open>API_URL + "/api/" + endpoint\<close> followed by \<open>?\<close> and
  the serialization of exactly the entries whose value is neither undefined nor the empty
  string, in order; when no entry is kept the result is \<open>API_URL + "/api/" + endpoint\<close>
  itself, without \<open>?\<close>. When \<open>API_URL + "/api/" + endpoint\<close> contains neither \<open>?\<close> nor \<open>#\<close>,
  the query parameters of the returned URL are exactly the kept names and values.
\<close>

theorem buildUrl_query_exact:
  assumes "distinct (map fst params)"
  shows "buildUrl num_str env endpoint params =
           API_URL env @ ''/api/'' @ endpoint @ query_of (kept_params num_str params)
         \<and> (filter (\<lambda>kv. is_set (snd kv)) params = [] \<longrightarrow>
              buildUrl num_str env endpoint params = API_URL env @ ''/api/'' @ endpoint)
         \<and> form_parse (drop 1 (query_of (kept_params num_str params)))
             = kept_params num_str params
         \<and> (CHR ''?'' \<notin> set (API_URL env @ ''/api/'' @ endpoint)
              \<and> CHR ''#'' \<notin> set (API_URL env @ ''/api/'' @ endpoint) \<longrightarrow>
              query_params_of (buildUrl num_str env endpoint params)
                = kept_params num_str params)"
proof -
  have f: "fold (add_param num_str) params [] = kept_params num_str params"
    using fold_add_param_distinct [OF assms, of "[]" num_str] by simp
  have 1: "buildUrl num_str env endpoint params =
           API_URL env @ ''/api/'' @ endpoint @ query_of (kept_params num_str params)"
    unfolding buildUrl_def Let_def f
    using question_toString [of "kept_params num_str params" "API_URL env @ ''/api/'' @ endpoint"]
    by simp
  have 2: "filter (\<lambda>kv. is_set (snd kv)) params = [] \<longrightarrow>
           buildUrl num_str env endpoint params = API_URL env @ ''/api/'' @ endpoint"
    using 1 by (simp add: kept_params_def)
  have 3: "query_params_of (buildUrl num_str env endpoint params) = kept_params num_str params"
    if "CHR ''?'' \<notin> set (API_URL env @ ''/api/'' @ endpoint)"
      "CHR ''#'' \<notin> set (API_URL env @ ''/api/'' @ endpoint)"
    using query_params_of_built [OF that, of "kept_params num_str params"] 1 by simp
  show ?thesis using 1 2 3 form_parse_query_of [of "kept_params num_str params"] by blast
qed

theorem buildUrl_query_exact_witness:
  "distinct (map fst [(''game'', Str ''all''), (''date_start'', Str []), (''date_end'', Undefined),
                      (''page'', Num (2::nat)), (''search'', Str ''a b&c'')])
   \<and> buildUrl dec (Some ''http://h'') ''markets''
        [(''game'', Str ''all''), (''date_start'', Str []), (''date_end'', Undefined),
         (''page'', Num (2::nat)), (''search'', Str ''a b&c'')]
      = ''http://h/api/markets?game=all&page=2&search=a+b%26c''
   \<and> CHR ''?'' \<notin> set (API_URL (Some ''http://h'') @ ''/api/'' @ ''markets'')
   \<and> CHR ''#'' \<notin> set (API_URL (Some ''http://h'') @ ''/api/'' @ ''markets'')
   \<and> query_params_of (buildUrl dec (Some ''http://h'') ''markets''
        [(''game'', Str ''all''), (''date_start'', Str []), (''date_end'', Undefined),
         (''page'', Num (2::nat)), (''search'', Str ''a b&c'')])
      = [(''game'', ''all''), (''page'', ''2''), (''search'', ''a b&c'')]
   \<and> filter (\<lambda>kv. is_set (snd kv))
        [(''game'', Str []), (''date_start'', Str []), (''date_end'', (Undefined :: nat jsval))] = []
   \<and> buildUrl dec None ''overview''
        [(''game'', Str []), (''date_start'', Str []), (''date_end'', (Undefined :: nat jsval))]
      = ''/api/overview''"
proof -
  let ?ps = "[(''game'', Str ''all''), (''date_start'', Str []), (''date_end'', Undefined),
              (''page'', Num (2::nat)), (''search'', Str ''a b&c'')]"
  let ?none = "[(''game'', Str []), (''date_start'', Str []), (''date_end'', (Undefined :: nat jsval))]"
  have k: "kept_params dec ?ps = [(''game'', ''all''), (''page'', ''2''), (''search'', ''a b&c'')]"
    by (simp add: kept_params_def dec.simps digit_def)
  have d: "distinct (map fst ?ps)" by simp
  have d': "distinct (map fst ?none)" by simp
  have m: "CHR ''?'' \<notin> set (API_URL (Some ''http://h'') @ ''/api/'' @ ''markets'')"
    "CHR ''#'' \<notin> set (API_URL (Some ''http://h'') @ ''/api/'' @ ''markets'')"
    by (simp_all add: API_URL_def)
  have e: "filter (\<lambda>kv. is_set (snd kv)) ?none = []" by simp
  note T = buildUrl_query_exact [OF d, of dec "Some ''http://h''" "''markets''"]
  note T' = buildUrl_query_exact [OF d', of dec None "''overview''"]
  have "buildUrl dec (Some ''http://h'') ''markets'' ?ps
        = API_URL (Some ''http://h'') @ ''/api/'' @ ''markets'' @ query_of (kept_params dec ?ps)"
    using T by blast
  then have u: "buildUrl dec (Some ''http://h'') ''markets'' ?ps
        = ''http://h/api/markets?game=all&page=2&search=a+b%26c''"
    by (simp add: k API_URL_def form_pair_def form_encode_def form_encode_char_def form_safe_def
        percent_encode_byte_def hex_digit_def)
  have "query_params_of (buildUrl dec (Some ''http://h'') ''markets'' ?ps) = kept_params dec ?ps"
    using T m by blast
  then have q: "query_params_of (buildUrl dec (Some ''http://h'') ''markets'' ?ps)
        = [(''game'', ''all''), (''page'', ''2''), (''search'', ''a b&c'')]"
    by (simp only: k)
  have "buildUrl dec None ''overview'' ?none = API_URL None @ ''/api/'' @ ''overview''"
    using T' e by blast
  then have v: "buildUrl dec None ''overview'' ?none = ''/api/overview''"
    by (simp add: API_URL_def)
  show ?thesis using d m u q e v by (intro conjI)
qed

text \<open>
  C8 fails as stated for an endpoint with a fragment or a query of its own: the entry
  \<open>game\<close> is kept, and the returned URL carries no query parameter \<open>game\<close>. After \<open>#\<close> the
  appended text is part of the fragment, and after a first \<open>?\<close> it is part of the value of
  \<open>page\<close>.
\<close>

theorem buildUrl_query_lost:
  "distinct (map fst [(''game'', (Str ''cod'' :: nat jsval))])
   \<and> kept_params dec [(''game'', (Str ''cod'' :: nat jsval))] = [(''game'', ''cod'')]
   \<and> buildUrl dec (Some ''http://localhost:8000'') ''markets#top''
        [(''game'', (Str ''cod'' :: nat jsval))]
       = ''http://localhost:8000/api/markets#top?game=cod''
   \<and> query_params_of ''http://localhost:8000/api/markets#top?game=cod'' = []
   \<and> buildUrl dec (Some ''http://localhost:8000'') ''markets?page=2''
        [(''game'', (Str ''cod'' :: nat jsval))]
       = ''http://localhost:8000/api/markets?page=2?game=cod''
   \<and> query_params_of ''http://localhost:8000/api/markets?page=2?game=cod''
       = [(''page'', ''2?game=cod'')]"
  by (simp add: kept_params_def buildUrl_def API_URL_def add_param_def searchParams_set_def
      searchParams_toString_def serialize_step_def form_pair_def form_encode_def
      form_encode_char_def form_safe_def query_params_of_def cut_at_def form_parse_def
      form_parse_pair_def plus_to_space_def)

text \<open>
  C9 (as amended). When the environment variable is a non-empty string, the string
  \<open>API_URL + "/api/" + endpoint\<close> is a URL in normal form (the parser accepts it and the
  serializer gives it back unchanged) and it contains neither \<open>?\<close> nor \<open>#\<close>, the two
  versions of \<open>buildUrl\<close> return the same string for every parameter object.
\<close>

theorem buildUrl_versions_agree:
  assumes env: "env = Some a" "a \<noteq> []"
    and normal: "parse (a @ ''/api/'' @ endpoint) = Some u" "href u = a @ ''/api/'' @ endpoint"
    and marks: "CHR ''?'' \<notin> set (a @ ''/api/'' @ endpoint)" "CHR ''#'' \<notin> set (a @ ''/api/'' @ endpoint)"
  shows "buildUrl_URL parse num_str env endpoint params = Some (buildUrl num_str env endpoint params)"
proof -
  let ?p = "a @ ''/api/'' @ endpoint"
  have parts: "url_query u = None \<and> url_fragment u = None \<and> url_head u = ?p"
    using href_no_marks [OF normal(2) marks] .
  have A1: "API_URL env = a" and A2: "API_URL_local env = a"
    using env by (simp_all add: API_URL_def API_URL_local_def)
  have new: "URL_new parse (API_URL_local env @ ''/api/'' @ endpoint) = Some (u, [])"
    using normal(1) parts by (simp add: URL_new_def A2)
  show ?thesis
  proof (cases "filter (\<lambda>kv. is_set (snd kv)) params = []")
    case True
    have "fold (add_param num_str) params [] = []"
      using True by (simp add: fold_add_param_none)
    then show ?thesis
      using True new parts normal(2)
      by (simp add: buildUrl_URL_def buildUrl_def fold_add_param_url A1 searchParams_toString_Nil)
  next
    case False
    define l where "l = fold (add_param num_str) params []"
    have "l \<noteq> []"
      unfolding l_def using False by (rule fold_add_param_some)
    then have ne: "searchParams_toString l \<noteq> []" by (simp add: searchParams_toString_empty_iff)
    show ?thesis
      using False new parts ne
      by (simp add: buildUrl_URL_def buildUrl_def fold_add_param_url A1 l_def [symmetric] href_def)
  qed
qed

theorem buildUrl_versions_agree_witness:
  "Some ''http://localhost:8000'' = Some ''http://localhost:8000''
   \<and> ''http://localhost:8000'' \<noteq> []
   \<and> href \<lparr>url_head = ''http://localhost:8000/api/markets'', url_query = None, url_fragment = None\<rparr>
       = ''http://localhost:8000/api/markets''
   \<and> buildUrl_URL URL_parse_normal dec (Some ''http://localhost:8000'') ''markets''
        [(''game'', Str ''cod''), (''date_start'', Str []), (''page'', Num (3::nat))]
       = Some ''http://localhost:8000/api/markets?game=cod&page=3''
   \<and> buildUrl dec (Some ''http://localhost:8000'') ''markets''
        [(''game'', Str ''cod''), (''date_start'', Str []), (''page'', Num (3::nat))]
       = ''http://localhost:8000/api/markets?game=cod&page=3''"
proof -
  have p: "URL_parse_normal (''http://localhost:8000'' @ ''/api/'' @ ''markets'')
           = Some \<lparr>url_head = ''http://localhost:8000/api/markets'', url_query = None, url_fragment = None\<rparr>"
    by (simp add: URL_parse_normal_def cut_at_def)
  have h: "href \<lparr>url_head = ''http://localhost:8000/api/markets'', url_query = None, url_fragment = None\<rparr>
           = ''http://localhost:8000'' @ ''/api/'' @ ''markets''"
    by (simp add: href_def)
  have q: "CHR ''?'' \<notin> set (''http://localhost:8000'' @ ''/api/'' @ ''markets'')"
    and f: "CHR ''#'' \<notin> set (''http://localhost:8000'' @ ''/api/'' @ ''markets'')"
    by simp_all
  have v1: "buildUrl dec (Some ''http://localhost:8000'') ''markets''
        [(''game'', Str ''cod''), (''date_start'', Str []), (''page'', Num (3::nat))]
       = ''http://localhost:8000/api/markets?game=cod&page=3''"
    by (simp add: buildUrl_def add_param_def searchParams_set_def searchParams_toString_def
        serialize_step_def form_pair_def form_encode_def form_encode_char_def form_safe_def
        API_URL_def dec.simps digit_def)
  show ?thesis
    using buildUrl_versions_agree [where env = "Some ''http://localhost:8000''"
        and a = "''http://localhost:8000''" and parse = URL_parse_normal
        and endpoint = "''markets''" and num_str = dec
        and u = "\<lparr>url_head = ''http://localhost:8000/api/markets'', url_query = None,
                  url_fragment = None\<rparr>"
        and params = "[(''game'', Str ''cod''), (''date_start'', Str []), (''page'', Num (3::nat))]"]
      p h q f v1
    by simp
qed

text \<open>
  C9 fails as stated: these strings are URLs in normal form, with no character that the
  parser rewrites, and the two versions differ on them. With a query in the endpoint the
  first version appends a second \<open>?\<close> where the second one merges the parameters with
  \<open>&\<close>; with a fragment the first version writes the query after the fragment.
\<close>

theorem buildUrl_versions_differ:
  "URL_parse_normal ''http://localhost:8000/api/markets?page=2''
     = Some \<lparr>url_head = ''http://localhost:8000/api/markets'', url_query = Some ''page=2'',
             url_fragment = None\<rparr>
   \<and> href \<lparr>url_head = ''http://localhost:8000/api/markets'', url_query = Some ''page=2'',
            url_fragment = None\<rparr> = ''http://localhost:8000/api/markets?page=2''
   \<and> buildUrl_URL URL_parse_normal dec (Some ''http://localhost:8000'') ''markets?page=2''
        [(''game'', (Str ''cod'' :: nat jsval))]
       = Some ''http://localhost:8000/api/markets?page=2&game=cod''
   \<and> buildUrl dec (Some ''http://localhost:8000'') ''markets?page=2''
        [(''game'', (Str ''cod'' :: nat jsval))]
       = ''http://localhost:8000/api/markets?page=2?game=cod''
   \<and> URL_parse_normal ''http://localhost:8000/api/markets#top''
     = Some \<lparr>url_head = ''http://localhost:8000/api/markets'', url_query = None,
             url_fragment = Some ''top''\<rparr>
   \<and> href \<lparr>url_head = ''http://localhost:8000/api/markets'', url_query = None,
            url_fragment = Some ''top''\<rparr> = ''http://localhost:8000/api/markets#top''
   \<and> buildUrl_URL URL_parse_normal dec (Some ''http://localhost:8000'') ''markets#top''
        [(''game'', (Str ''cod'' :: nat jsval))]
       = Some ''http://localhost:8000/api/markets?game=cod#top''
   \<and> buildUrl dec (Some ''http://localhost:8000'') ''markets#top''
        [(''game'', (Str ''cod'' :: nat jsval))]
       = ''http://localhost:8000/api/markets#top?game=cod''"
  by (simp add: URL_parse_normal_def cut_at_def href_def buildUrl_URL_def URL_new_def
      API_URL_local_def API_URL_def add_param_url_def url_searchParams_set_def
      form_parse_def form_parse_pair_def plus_to_space_def
      buildUrl_def add_param_def searchParams_set_def searchParams_toString_def
      serialize_step_def form_pair_def form_encode_def form_encode_char_def form_safe_def)

section \<open>Verification: formatting amounts\<close>

lemma dec_nonempty: "dec n \<noteq> []"
  by (subst dec.simps) simp

lemma dec_small_digit: "n < 10 \<Longrightarrow> dec n = [digit n]"
  by (subst dec.simps) simp

lemma dec_step: "10 \<le> n \<Longrightarrow> dec n = dec (n div 10) @ [digit (n mod 10)]"
  by (subst dec.simps) simp

lemma digit_0: "digit 0 = CHR ''0''"
  by (simp add: digit_def)

lemma length_frac_digits: "length (frac_digits f m) = f"
  by (induction f arbitrary: m) simp_all

lemma frac_digits_zero: "frac_digits f 0 = replicate f CHR ''0''"
  by (induction f) (simp_all add: digit_0 replicate_append_same)

lemma dec_split: "10 ^ f \<le> n \<Longrightarrow> dec n = dec (n div 10 ^ f) @ frac_digits f (n mod 10 ^ f)"
proof (induction f arbitrary: n)
  case 0
  then show ?case by simp
next
  case (Suc f)
  have ten: "10 \<le> n"
  proof -
    have "(10::nat) \<le> 10 ^ Suc f" by (simp add: self_le_power)
    then show ?thesis using Suc.prems by linarith
  qed
  have le: "10 ^ f \<le> n div 10" using Suc.prems by (simp add: less_eq_div_iff_mult_less_eq mult.commute)
  have a: "n div 10 div 10 ^ f = n div (10 * 10 ^ f)" by (simp add: div_mult2_eq)
  have b: "(n mod (10 * 10 ^ f)) div 10 = (n div 10) mod 10 ^ f"
    by (simp add: mod_mult2_eq)
  have c: "(n mod (10 * 10 ^ f)) mod 10 = n mod 10"
    by (simp add: mod_mod_cancel)
  show ?case
    using Suc.IH [OF le] by (simp add: dec_step [OF ten] a b c)
qed

lemma dec_small:
  "0 < f \<Longrightarrow> n < 10 ^ f \<Longrightarrow>
   length (dec n) \<le> f \<and> frac_digits f n = replicate (f - length (dec n)) CHR ''0'' @ dec n"
proof (induction f arbitrary: n)
  case 0
  then show ?case by simp
next
  case (Suc g)
  show ?case
  proof (cases "n < 10")
    case True
    then show ?thesis by (simp add: dec_small_digit frac_digits_zero)
  next
    case False
    then have ten: "10 \<le> n" by simp
    have g: "0 < g" using Suc.prems ten by (cases g) simp_all
    have lt: "n div 10 < 10 ^ g" using Suc.prems by (simp add: less_mult_imp_div_less mult.commute)
    from Suc.IH [OF g lt]
    have len: "length (dec (n div 10)) \<le> g"
      and fd: "frac_digits g (n div 10) = replicate (g - length (dec (n div 10))) CHR ''0'' @ dec (n div 10)"
      by simp_all
    show ?thesis using len fd by (simp add: dec_step [OF ten])
  qed
qed

lemma dec_length_iff: "0 < f \<Longrightarrow> length (dec n) \<le> f \<longleftrightarrow> n < 10 ^ f"
proof
  assume f: "0 < f" and l: "length (dec n) \<le> f"
  show "n < 10 ^ f"
  proof (rule ccontr)
    assume "\<not> n < 10 ^ f"
    then have "10 ^ f \<le> n" by simp
    from dec_split [OF this] have "length (dec n) = length (dec (n div 10 ^ f)) + f"
      by (simp add: length_frac_digits)
    moreover have "0 < length (dec (n div 10 ^ f))" using dec_nonempty by simp
    ultimately show False using l by simp
  qed
next
  assume "0 < f" "n < 10 ^ f"
  then show "length (dec n) \<le> f" using dec_small by simp
qed

lemma point_digits:
  assumes f: "0 < f"
  shows "(let m = dec n;
              m' = (if length m \<le> f then replicate (f + 1 - length m) CHR ''0'' @ m else m);
              k = length m'
          in take (k - f) m' @ ''.'' @ drop (k - f) m')
         = dec (n div 10 ^ f) @ ''.'' @ frac_digits f (n mod 10 ^ f)"
proof (cases "n < 10 ^ f")
  case True
  from dec_small [OF f True]
  have len: "length (dec n) \<le> f"
    and fd: "frac_digits f n = replicate (f - length (dec n)) CHR ''0'' @ dec n" by simp_all
  have r: "replicate (f + 1 - length (dec n)) CHR ''0'' = CHR ''0'' # replicate (f - length (dec n)) CHR ''0''"
    using len by (simp add: Suc_diff_le)
  have z: "dec (n div 10 ^ f) = ''0''" using True by (simp add: dec_small_digit digit_0)
  show ?thesis using len True by (simp add: Let_def r fd dec_small_digit digit_0)
next
  case False
  then have ge: "10 ^ f \<le> n" by simp
  have nl: "\<not> length (dec n) \<le> f" using False dec_length_iff [OF f] by simp
  have sp: "dec n = dec (n div 10 ^ f) @ frac_digits f (n mod 10 ^ f)" by (rule dec_split [OF ge])
  have k: "length (dec n) - f = length (dec (n div 10 ^ f))"
    by (subst sp) (simp add: length_frac_digits)
  have t: "take (length (dec (n div 10 ^ f))) (dec n) = dec (n div 10 ^ f)"
    by (subst sp) simp
  have d: "drop (length (dec (n div 10 ^ f))) (dec n) = frac_digits f (n mod 10 ^ f)"
    by (subst sp) simp
  show ?thesis using nl by (simp add: Let_def k t d)
qed

lemma toFixed_decimals: "\<bar>x\<bar> < 10 ^ 21 \<Longrightarrow> toFixed ts f x = to_decimals f x"
proof (cases "f = 0")
  case True
  assume "\<bar>x\<bar> < 10 ^ 21"
  then show ?thesis using True by (simp add: toFixed_def to_decimals_def Let_def)
next
  case False
  assume b: "\<bar>x\<bar> < 10 ^ 21"
  have f: "0 < f" using False by simp
  show ?thesis
    using b False point_digits [OF f, of "nat \<lfloor>\<bar>x\<bar> * 10 ^ f + 1 / 2\<rfloor>"]
    by (simp add: toFixed_def to_decimals_def Let_def)
qed

lemma toFixed_exponent: "10 ^ 21 \<le> \<bar>x\<bar> \<Longrightarrow> toFixed ts f x = (if x < 0 then ''-'' else []) @ ts \<bar>x\<bar>"
  by (simp add: toFixed_def Let_def)

lemma ilog2_le: "1 \<le> n \<Longrightarrow> 2 ^ ilog2 n \<le> n"
proof (induction n rule: ilog2.induct)
  case (1 n)
  show ?case
  proof (cases "n < 2")
    case True
    then show ?thesis using "1.prems" by (subst ilog2.simps) simp
  next
    case False
    then have "1 \<le> n div 2" by simp
    from "1.IH" [OF False this] have "2 * 2 ^ ilog2 (n div 2) \<le> 2 * (n div 2)" by simp
    also have "\<dots> \<le> n" by simp
    finally show ?thesis using False by (subst ilog2.simps) simp
  qed
qed

lemma round_half_even_bounds: "0 \<le> y \<Longrightarrow> 0 \<le> round_half_even y \<and> of_int (round_half_even y) \<le> y + 1"
proof -
  assume y: "0 \<le> y"
  have f0: "0 \<le> \<lfloor>y\<rfloor>" using y by simp
  have f1: "of_int \<lfloor>y\<rfloor> \<le> y + 1"
  proof -
    have "of_int \<lfloor>y\<rfloor> \<le> y" by (rule of_int_floor_le)
    then show ?thesis by linarith
  qed
  have f2: "of_int (\<lfloor>y\<rfloor> + 1) \<le> y + 1" by simp
  have "round_half_even y = \<lfloor>y\<rfloor> \<or> round_half_even y = \<lfloor>y\<rfloor> + 1"
    by (simp add: round_half_even_def Let_def)
  then show ?thesis
  proof
    assume "round_half_even y = \<lfloor>y\<rfloor>"
    then show ?thesis using f0 f1 by (simp only: simp_thms)
  next
    assume "round_half_even y = \<lfloor>y\<rfloor> + 1"
    then show ?thesis using f0 f2 by (simp only: simp_thms add_nonneg_nonneg zero_le_one)
  qed
qed

lemma fl_bounds:
  assumes "1 \<le> x"
  shows "0 \<le> fl x \<and> fl x \<le> 2 * x"
proof -
  define e where "e = ilog2 (nat \<lfloor>x\<rfloor>)"
  define ulp :: real where "ulp = 2 ^ e / 2 ^ 52"
  have fx: "1 \<le> nat \<lfloor>x\<rfloor>" using assms by (simp add: le_nat_iff le_floor_iff)
  have "2 ^ e \<le> nat \<lfloor>x\<rfloor>" unfolding e_def by (rule ilog2_le [OF fx])
  then have "(of_nat (2 ^ e) :: real) \<le> of_nat (nat \<lfloor>x\<rfloor>)" by (simp only: of_nat_le_iff)
  also have "\<dots> = of_int \<lfloor>x\<rfloor>" using fx by simp
  also have "\<dots> \<le> x" by simp
  finally have p: "(2::real) ^ e \<le> x" by simp
  have upos: "0 < ulp" by (simp add: ulp_def)
  have ule: "ulp \<le> 2 ^ e" by (simp add: ulp_def divide_le_eq)
  have ypos: "0 \<le> x / ulp" using assms upos by simp
  from round_half_even_bounds [OF ypos]
  have r0: "0 \<le> round_half_even (x / ulp)" and r1: "of_int (round_half_even (x / ulp)) \<le> x / ulp + 1"
    by simp_all
  have flx: "fl x = of_int (round_half_even (x / ulp)) * ulp"
    by (simp add: fl_def Let_def ulp_def e_def)
  have lo: "0 \<le> fl x" using r0 upos by (simp add: flx)
  have "fl x \<le> (x / ulp + 1) * ulp" unfolding flx using r1 upos by (simp add: mult_right_mono)
  also have "\<dots> = x + ulp" using upos by (simp add: field_simps)
  also have "\<dots> \<le> 2 * x" using ule p by simp
  finally show ?thesis using lo by simp
qed

lemma fdiv_small:
  assumes "1000 \<le> v" "v < 1000000"
  shows "\<bar>fdiv v 1000\<bar> < 10 ^ 21"
proof -
  have "1 \<le> v / 1000" using assms by simp
  from fl_bounds [OF this] have "0 \<le> fl (v / 1000)" "fl (v / 1000) \<le> 2 * (v / 1000)" by simp_all
  moreover have "2 * (v / 1000) < 10 ^ 21" using assms by simp
  ultimately show ?thesis by (simp add: fdiv_def)
qed

lemma frac_digits_1: "frac_digits 1 m = [digit (m mod 10)]"
  using frac_digits.simps(2) [of 0 m] by simp

lemma frac_digits_2: "frac_digits 2 m = [digit (m div 10 mod 10), digit (m mod 10)]"
  by (simp add: numeral_2_eq_2)

text \<open>
  C10 (as amended). \<open>formatVolume\<close> is defined on every finite number, and piecewise:
  for \<open>v \<ge> 1000000\<close> whose quotient by 1000000 is below \<open>10\<^sup>2\<^sup>1\<close> it is \<open>$\<close>, the quotient
  to 2 decimals and \<open>M\<close>; for \<open>10000 \<le> v < 1000000\<close> it is \<open>$\<close>, \<open>v / 1000\<close> to 0 decimals and
  \<open>K\<close>; for \<open>1000 \<le> v < 10000\<close> it is \<open>$\<close>, \<open>v / 1000\<close> to 1 decimal and \<open>K\<close>; for every other
  \<open>v\<close> above \<open>-10\<^sup>2\<^sup>1\<close>, so for every negative one, it is \<open>$\<close> and \<open>v\<close> to 0 decimals, the minus
  sign after the dollar sign and no suffix. From \<open>10\<^sup>2\<^sup>1\<close> on \<open>toFixed\<close> gives the exponent
  notation of \<open>Number::toString\<close> instead of decimals. Quotients are the double-precision
  ones.
\<close>

theorem formatVolume_piecewise:
  "(1000000 \<le> v \<and> fdiv v 1000000 < 10 ^ 21 \<longrightarrow>
      formatVolume ts v = ''$'' @ to_decimals 2 (fdiv v 1000000) @ ''M'')
   \<and> (10000 \<le> v \<and> v < 1000000 \<longrightarrow>
      formatVolume ts v = ''$'' @ to_decimals 0 (fdiv v 1000) @ ''K'')
   \<and> (1000 \<le> v \<and> v < 10000 \<longrightarrow>
      formatVolume ts v = ''$'' @ to_decimals 1 (fdiv v 1000) @ ''K'')
   \<and> (- (10 ^ 21) < v \<and> v < 1000 \<longrightarrow> formatVolume ts v = ''$'' @ to_decimals 0 v)
   \<and> (- (10 ^ 21) < v \<and> v < 0 \<longrightarrow> formatVolume ts v = ''$-'' @ to_decimals 0 (- v))
   \<and> (1000000 \<le> v \<and> 10 ^ 21 \<le> fdiv v 1000000 \<longrightarrow>
      formatVolume ts v = ''$'' @ ts (fdiv v 1000000) @ ''M'')
   \<and> (v \<le> - (10 ^ 21) \<longrightarrow> formatVolume ts v = ''$-'' @ ts (- v))"
proof -
  have m: "1000000 \<le> v \<Longrightarrow> fdiv v 1000000 < 10 ^ 21 \<Longrightarrow>
      formatVolume ts v = ''$'' @ to_decimals 2 (fdiv v 1000000) @ ''M''"
  proof -
    assume a: "1000000 \<le> v" "fdiv v 1000000 < 10 ^ 21"
    have "1 \<le> v / 1000000" using a by simp
    from fl_bounds [OF this] have "0 \<le> fdiv v 1000000" by (simp add: fdiv_def)
    then have "\<bar>fdiv v 1000000\<bar> < 10 ^ 21" using a by simp
    then show ?thesis using a by (simp add: formatVolume_def toFixed_decimals)
  qed
  have k0: "10000 \<le> v \<Longrightarrow> v < 1000000 \<Longrightarrow>
      formatVolume ts v = ''$'' @ to_decimals 0 (fdiv v 1000) @ ''K''"
    using fdiv_small [of v] by (simp add: formatVolume_def toFixed_decimals)
  have k1: "1000 \<le> v \<Longrightarrow> v < 10000 \<Longrightarrow>
      formatVolume ts v = ''$'' @ to_decimals 1 (fdiv v 1000) @ ''K''"
    using fdiv_small [of v] by (simp add: formatVolume_def toFixed_decimals)
  have u: "- (10 ^ 21) < v \<Longrightarrow> v < 1000 \<Longrightarrow> formatVolume ts v = ''$'' @ to_decimals 0 v"
  proof -
    assume a: "- (10 ^ 21) < v" "v < 1000"
    have "\<bar>v\<bar> < 10 ^ 21" using a by (simp add: abs_less_iff)
    then show ?thesis using a by (simp add: formatVolume_def toFixed_decimals)
  qed
  have n: "- (10 ^ 21) < v \<Longrightarrow> v < 0 \<Longrightarrow> formatVolume ts v = ''$-'' @ to_decimals 0 (- v)"
  proof -
    assume a: "- (10 ^ 21) < v" "v < 0"
    have "formatVolume ts v = ''$'' @ to_decimals 0 v" using a u by simp
    moreover have "to_decimals 0 v = ''-'' @ to_decimals 0 (- v)"
      using a by (simp add: to_decimals_def)
    ultimately show ?thesis by simp
  qed
  have e: "1000000 \<le> v \<Longrightarrow> 10 ^ 21 \<le> fdiv v 1000000 \<Longrightarrow>
      formatVolume ts v = ''$'' @ ts (fdiv v 1000000) @ ''M''"
  proof -
    assume a: "1000000 \<le> v" "10 ^ 21 \<le> fdiv v 1000000"
    have p: "0 \<le> fdiv v 1000000" using a(2) by (simp add: order_trans [of 0 "10 ^ 21"])
    have "10 ^ 21 \<le> \<bar>fdiv v 1000000\<bar>" using a(2) p by simp
    from toFixed_exponent [OF this, of ts 2] show ?thesis using a p by (simp add: formatVolume_def)
  qed
  have ne: "v \<le> - (10 ^ 21) \<Longrightarrow> formatVolume ts v = ''$-'' @ ts (- v)"
  proof -
    assume a: "v \<le> - (10 ^ 21)"
    have neg: "v < 0" using a by (simp add: order_le_less_trans [of v "- (10 ^ 21)" 0])
    have "10 ^ 21 \<le> \<bar>v\<bar>" using a neg by simp
    from toFixed_exponent [OF this, of ts 0] show ?thesis using a neg by (simp add: formatVolume_def)
  qed
  show ?thesis using m k0 k1 u n e ne by blast
qed

theorem formatVolume_piecewise_witness:
  "(1000000::real) \<le> 1005000 \<and> fdiv 1005000 1000000 < 10 ^ 21
   \<and> formatVolume (\<lambda>_. ''1.1805916207174113e+21'') 1005000 = ''$1.00M''
   \<and> (10000::real) \<le> 12000 \<and> (12000::real) < 1000000
   \<and> formatVolume (\<lambda>_. ''1.1805916207174113e+21'') 12000 = ''$12K''
   \<and> (1000::real) \<le> 1500 \<and> (1500::real) < 10000
   \<and> formatVolume (\<lambda>_. ''1.1805916207174113e+21'') 1500 = ''$1.5K''
   \<and> - (10 ^ 21) < (1999 / 2 :: real) \<and> (1999 / 2 :: real) < 1000
   \<and> formatVolume (\<lambda>_. ''1.1805916207174113e+21'') (1999 / 2) = ''$1000''
   \<and> - (10 ^ 21) < (- 1234567 :: real) \<and> (- 1234567 :: real) < 0
   \<and> formatVolume (\<lambda>_. ''1.1805916207174113e+21'') (- 1234567) = ''$-1234567''
   \<and> (1000000::real) \<le> 1180591620717411303424000000
   \<and> 10 ^ 21 \<le> fdiv 1180591620717411303424000000 1000000
   \<and> formatVolume (\<lambda>_. ''1.1805916207174113e+21'') 1180591620717411303424000000
       = ''$1.1805916207174113e+21M''
   \<and> (- 1180591620717411303424 :: real) \<le> - (10 ^ 21)
   \<and> formatVolume (\<lambda>_. ''1.1805916207174113e+21'') (- 1180591620717411303424)
       = ''$-1.1805916207174113e+21''"
proof -
  let ?ts = "\<lambda>_::real. ''1.1805916207174113e+21''"
  have q1: "fdiv 1005000 1000000 = 1131529406376837 / 1125899906842624"
    by (simp add: fdiv_def fl_def Let_def ilog2.simps round_half_even_def)
  have q2: "fdiv 12000 1000 = 12"
    by (simp add: fdiv_def fl_def Let_def ilog2.simps round_half_even_def)
  have q3: "fdiv 1500 1000 = 3 / 2"
    by (simp add: fdiv_def fl_def Let_def ilog2.simps round_half_even_def)
  have q4: "fdiv 1180591620717411303424000000 1000000 = 1180591620717411303424"
    by (simp add: fdiv_def fl_def Let_def ilog2.simps round_half_even_def)
  have d1: "to_decimals 2 (1131529406376837 / 1125899906842624) = ''1.00''"
    by (simp add: to_decimals_def Let_def dec.simps digit_def frac_digits_2)
  have d2: "to_decimals 0 12 = ''12''"
    by (simp add: to_decimals_def Let_def dec.simps digit_def)
  have d3: "to_decimals (Suc 0) (3 / 2) = ''1.5''"
    using frac_digits_1 by (simp add: to_decimals_def Let_def dec.simps digit_def)
  have d4: "to_decimals 0 (1999 / 2) = ''1000''"
    by (simp add: to_decimals_def Let_def dec.simps digit_def)
  have d5: "to_decimals 0 1234567 = ''1234567''"
    by (simp add: to_decimals_def Let_def dec.simps digit_def)
  have d6: "to_decimals 0 (- 1234567) = ''-1234567''"
    by (simp add: to_decimals_def Let_def dec.simps digit_def)
  show ?thesis
    using formatVolume_piecewise [of 1005000 ?ts]
      formatVolume_piecewise [of 12000 ?ts]
      formatVolume_piecewise [of 1500 ?ts]
      formatVolume_piecewise [of "1999 / 2" ?ts]
      formatVolume_piecewise [of "- 1234567" ?ts]
      formatVolume_piecewise [of 1180591620717411303424000000 ?ts]
      formatVolume_piecewise [of "- 1180591620717411303424" ?ts]
    by (simp add: q1 q2 q3 q4 d1 d2 d3 d4 d5 d6)
qed

text \<open>
  C10 fails as stated at a volume of \<open>2\<^sup>7\<^sup>6 \<sqdot> 15625\<close> (a double, and so is its quotient
  \<open>2\<^sup>7\<^sup>0\<close> by 1000000): the result is the exponent notation of the quotient, not the
  quotient to 2 decimals. \<open>Number::toString\<close> of \<open>2\<^sup>7\<^sup>0\<close> is \<open>1.1805916207174113e+21\<close>.
\<close>

theorem formatVolume_exponent_notation:
  "(1000000::real) \<le> 1180591620717411303424000000
   \<and> formatVolume (\<lambda>_. ''1.1805916207174113e+21'') 1180591620717411303424000000
       = ''$1.1805916207174113e+21M''
   \<and> ''$'' @ to_decimals 2 (fdiv 1180591620717411303424000000 1000000) @ ''M''
       = ''$1180591620717411303424.00M''"
proof -
  have q: "fdiv 1180591620717411303424000000 1000000 = 1180591620717411303424"
    by (simp add: fdiv_def fl_def Let_def ilog2.simps round_half_even_def)
  have d: "to_decimals 2 1180591620717411303424 = ''1180591620717411303424.00''"
    by (simp add: to_decimals_def Let_def dec.simps digit_def frac_digits_1 frac_digits_2)
  show ?thesis by (simp add: formatVolume_def toFixed_def Let_def q d)
qed

section \<open>Verification: discovery and historical backfill\<close>

lemma extends_refl: "extends s s"
  by (simp add: extends_def)

lemma extends_trans:
  assumes "extends a b" "extends b c"
  shows "extends a c"
proof -
  have m: "markets c = markets a" using assms by (simp add: extends_def)
  have p: "set (map pp_key (price_history a)) \<subseteq> set (map pp_key (price_history c))"
    using assms unfolding extends_def by (meson subset_trans)
  have t: "set (map trade_id (trades a)) \<subseteq> set (map trade_id (trades c))"
    using assms unfolding extends_def by (meson subset_trans)
  show ?thesis using m p t by (simp only: extends_def simp_thms)
qed

lemma settled_id: "settled (\<lambda>s. s)"
  by (simp add: settled_def extensive_def absorbing_def extends_refl)

lemma settled_comp:
  assumes f: "settled f" and g: "settled g"
  shows "settled (\<lambda>s. g (f s))"
proof -
  have ef: "\<And>s. extends s (f s)" and eg: "\<And>s. extends s (g s)"
    using f g by (simp_all add: settled_def extensive_def)
  have af: "\<And>s s'. extends (f s) s' \<Longrightarrow> f s' = s'"
    and ag: "\<And>s s'. extends (g s) s' \<Longrightarrow> g s' = s'"
    using f g by (simp_all add: settled_def absorbing_def)
  have ext: "extensive (\<lambda>s. g (f s))"
    unfolding extensive_def using ef eg extends_trans by blast
  have "absorbing (\<lambda>s. g (f s))"
    unfolding absorbing_def
  proof (intro allI impI)
    fix s s'
    assume h: "extends (g (f s)) s'"
    have "extends (f s) s'" using eg [of "f s"] h by (rule extends_trans)
    then have 1: "f s' = s'" by (rule af)
    have 2: "g s' = s'" using h by (rule ag)
    show "g (f s') = s'" by (simp add: 1 2)
  qed
  with ext show ?thesis by (simp add: settled_def)
qed

lemma settled_fold:
  "(\<And>x. x \<in> set xs \<Longrightarrow> settled (f x)) \<Longrightarrow> settled (fold f xs)"
proof (induction xs)
  case Nil
  show ?case using settled_id by (simp add: id_def)
next
  case (Cons x xs)
  have a: "settled (f x)" using Cons.prems by simp
  have b: "settled (fold f xs)" using Cons by simp
  have "fold f (x # xs) = (\<lambda>s. fold f xs (f x s))" by (simp add: fun_eq_iff)
  then show ?case using settled_comp [OF a b] by simp
qed

lemma settled_upsertPricePoint: "settled (upsertPricePoint p)"
  unfolding settled_def extensive_def absorbing_def
  by (auto simp: upsertPricePoint_def extends_def known_market_def)

lemma settled_upsertTrade: "settled (upsertTrade t)"
  unfolding settled_def extensive_def absorbing_def
  by (auto simp: upsertTrade_def extends_def known_market_def)

lemma settled_collect_trades: "settled (collect_trades cfg m pages)"
proof (induction pages)
  case Nil
  have "collect_trades cfg m [] = (\<lambda>s. s)" by (simp add: fun_eq_iff)
  then show ?case using settled_id by simp
next
  case (Cons page pages)
  show ?case
  proof (cases "retry (max_attempts cfg) 0 page")
    case None
    then have "collect_trades cfg m (page # pages) = (\<lambda>s. s)" by (simp add: fun_eq_iff)
    then show ?thesis using settled_id by simp
  next
    case (Some records)
    have w: "settled (fold (\<lambda>r. upsertTrade (to_trade m r)) records)"
      by (rule settled_fold) (rule settled_upsertTrade)
    have "collect_trades cfg m (page # pages) =
          (\<lambda>s. collect_trades cfg m pages (fold (\<lambda>r. upsertTrade (to_trade m r)) records s))"
      using Some by (simp add: fun_eq_iff)
    then show ?thesis using settled_comp [OF w Cons.IH] by simp
  qed
qed

lemma settled_collect_market: "settled (collect_market cfg remote window m)"
proof (cases "retry (max_attempts cfg) 0
    (price_history_api remote (clob_token_id_yes m) (fst window) (snd window) (interval cfg))")
  case None
  then have "collect_market cfg remote window m = (\<lambda>s. s)"
    by (simp add: fun_eq_iff collect_market_def)
  then show ?thesis using settled_id by simp
next
  case (Some points)
  have w: "settled (fold (\<lambda>tp. upsertPricePoint (to_price_point m tp)) points)"
    by (rule settled_fold) (rule settled_upsertPricePoint)
  have "collect_market cfg remote window m =
        (\<lambda>s. collect_trades cfg m (trade_history_api remote (condition_id m) (max_records cfg))
               (fold (\<lambda>tp. upsertPricePoint (to_price_point m tp)) points s))"
    using Some by (simp add: fun_eq_iff collect_market_def)
  then show ?thesis using settled_comp [OF w settled_collect_trades] by simp
qed

lemma settled_markets_pass: "settled (fold (collect_market cfg remote window) ms)"
  by (rule settled_fold) (rule settled_collect_market)

lemma run_historical_again:
  "run_historical cfg remote window (run_historical cfg remote window s)
   = run_historical cfg remote window s"
proof -
  let ?pass = "fold (collect_market cfg remote window) (markets s)"
  have st: "settled ?pass" by (rule settled_markets_pass)
  have ext: "extends s (?pass s)" using st by (simp add: settled_def extensive_def)
  then have same: "markets (?pass s) = markets s" by (simp add: extends_def)
  have "?pass (?pass s) = ?pass s"
    using st extends_refl [of "?pass s"] by (simp add: settled_def absorbing_def)
  then show ?thesis by (simp add: run_historical_def listKnownMarkets_def same)
qed

lemma scenario_hits:
  "term_hits scenario_discovery scenario_metadata ''cdl'' = [scenario_market]"
  "term_hits scenario_discovery scenario_metadata ''OpTic Texas'' = [scenario_market]"
  "term_hits scenario_discovery scenario_metadata ''call of duty'' = []"
  "term_hits scenario_discovery scenario_metadata ''cdl major'' = [scenario_market]"
  by (simp_all add: term_hits_def scenario_discovery_def scenario_metadata_def validates_def
      scenario_market_def)

lemma scenario_discovered:
  "discover scenario_discovery scenario_metadata 1000 empty_store =
     (1, 0, \<lparr>markets = [new_market 1000 scenario_market], price_history = [], trades = []\<rparr>)"
proof -
  have t: "all_terms scenario_discovery = [''call of duty'', ''cdl'', ''OpTic Texas'', ''cdl major'']"
    by (simp add: all_terms_def scenario_discovery_def)
  have u: "dedup_by_market_id [scenario_market, scenario_market, scenario_market] = [scenario_market]"
    by (simp add: dedup_by_market_id_def dedup_step_def)
  show ?thesis
    by (simp add: discover_def Let_def t scenario_hits u known_market_def empty_store_def
        upsertMarket_def upsert_market_row_def)
qed

lemma scenario_backfilled:
  "run_historical scenario_config scenario_remote (0, 400)
     \<lparr>markets = [new_market 1000 scenario_market], price_history = [], trades = []\<rparr> =
     \<lparr>markets = [new_market 1000 scenario_market],
      price_history =
        [\<lparr>pp_market_id = ''M'', pp_timestamp = 100, pp_price = 2 / 5\<rparr>,
         \<lparr>pp_market_id = ''M'', pp_timestamp = 200, pp_price = 9 / 20\<rparr>,
         \<lparr>pp_market_id = ''M'', pp_timestamp = 300, pp_price = 1 / 2\<rparr>],
      trades =
        [\<lparr>tr_market_id = ''M'', trade_id = ''a'', tr_timestamp = 150, tr_price = 2 / 5,
          tr_size = 10, tr_side = BUY, tr_outcome = ''Yes''\<rparr>,
         \<lparr>tr_market_id = ''M'', trade_id = ''b'', tr_timestamp = 250, tr_price = 9 / 20,
          tr_size = 5, tr_side = SELL, tr_outcome = ''Yes''\<rparr>]\<rparr>"
  by (simp add: run_historical_def listKnownMarkets_def collect_market_def scenario_config_def
      scenario_remote_def new_market_def scenario_market_def numeral_3_eq_3
      upsertPricePoint_def upsertTrade_def known_market_def to_price_point_def to_trade_def
      pp_key_def)

text \<open>
  C1. Running HistoricalCollector a second time over the same window, against the same
  answers of the remote side, leaves the store as the first run left it: the same rows of
  price points and trades, and so the same row counts.
\<close>

theorem backfill_idempotent:
  "run_historical cfg remote window (run_historical cfg remote window s)
     = run_historical cfg remote window s
   \<and> length (price_history (run_historical cfg remote window (run_historical cfg remote window s)))
     = length (price_history (run_historical cfg remote window s))
   \<and> length (trades (run_historical cfg remote window (run_historical cfg remote window s)))
     = length (trades (run_historical cfg remote window s))"
  by (simp add: run_historical_again)

theorem backfill_idempotent_scenario:
  "length (price_history (run_historical scenario_config scenario_remote (0, 400)
      (snd (snd (discover scenario_discovery scenario_metadata 1000 empty_store))))) = 3
   \<and> length (trades (run_historical scenario_config scenario_remote (0, 400)
      (snd (snd (discover scenario_discovery scenario_metadata 1000 empty_store))))) = 2
   \<and> length (price_history (run_historical scenario_config scenario_remote (0, 400)
      (run_historical scenario_config scenario_remote (0, 400)
        (snd (snd (discover scenario_discovery scenario_metadata 1000 empty_store)))))) = 3
   \<and> length (trades (run_historical scenario_config scenario_remote (0, 400)
      (run_historical scenario_config scenario_remote (0, 400)
        (snd (snd (discover scenario_discovery scenario_metadata 1000 empty_store)))))) = 2"
  using backfill_idempotent [of scenario_config scenario_remote "(0, 400)"
      "\<lparr>markets = [new_market 1000 scenario_market], price_history = [], trades = []\<rparr>"]
  by (simp add: scenario_discovered scenario_backfilled)

lemma market_id_refresh: "market_id (refresh d m) = market_id m"
  by (simp add: refresh_def)

lemma ids_upsert_market_row:
  "map market_id (upsert_market_row now d ms) =
     (if d_market_id d \<in> set (map market_id ms) then map market_id ms
      else map market_id ms @ [d_market_id d])"
proof -
  have "map market_id (map (\<lambda>m. if market_id m = d_market_id d then refresh d m else m) ms)
        = map market_id ms"
    by (induction ms) (simp_all add: market_id_refresh)
  then show ?thesis by (simp add: upsert_market_row_def new_market_def)
qed

lemma distinct_upsert_market_row:
  "distinct (map market_id ms) \<Longrightarrow> distinct (map market_id (upsert_market_row now d ms))"
  by (simp add: ids_upsert_market_row)

lemma set_ids_upsert_market_row:
  "set (map market_id (upsert_market_row now d ms)) = insert (d_market_id d) (set (map market_id ms))"
  by (auto simp: ids_upsert_market_row)

lemma fold_upsert_rows:
  "distinct (map market_id ms) \<Longrightarrow>
   distinct (map market_id (fold (upsert_market_row now) ds ms))
   \<and> set (map market_id (fold (upsert_market_row now) ds ms))
       = set (map market_id ms) \<union> set (map d_market_id ds)"
proof (induction ds arbitrary: ms)
  case Nil
  then show ?case by simp
next
  case (Cons d ds)
  have "distinct (map market_id (upsert_market_row now d ms))"
    using Cons.prems by (rule distinct_upsert_market_row)
  from Cons.IH [OF this] show ?case
    using set_ids_upsert_market_row [of now d ms] by auto
qed

lemma markets_fold_upsertMarket:
  "markets (fold (upsertMarket now) ds s) = fold (upsert_market_row now) ds (markets s)"
  by (induction ds arbitrary: s) (simp_all add: upsertMarket_def)

lemma set_ids_dedup_fold:
  "set (map d_market_id (fold dedup_step hits seen))
     = set (map d_market_id seen) \<union> set (map d_market_id hits)"
  by (induction hits arbitrary: seen) (auto simp: dedup_step_def)

lemma distinct_dedup_fold:
  "distinct (map d_market_id seen) \<Longrightarrow> distinct (map d_market_id (fold dedup_step hits seen))"
  by (induction hits arbitrary: seen) (simp_all add: dedup_step_def)

lemma one_row_of_key:
  "distinct (map f xs) \<Longrightarrow> k \<in> set (map f xs) \<Longrightarrow> length (filter (\<lambda>x. f x = k) xs) = 1"
proof (induction xs)
  case Nil
  then show ?case by simp
next
  case (Cons x xs)
  show ?case
  proof (cases "f x = k")
    case True
    then have "k \<notin> set (map f xs)" using Cons.prems(1) by auto
    then have "filter (\<lambda>x. f x = k) xs = []" by (auto simp: filter_empty_conv)
    then show ?thesis using True by simp
  next
    case False
    then have "k \<in> set (map f xs)" using Cons.prems(2) by auto
    then show ?thesis using Cons False by simp
  qed
qed

lemma refreshed_fields:
  "m \<in> set (upsert_market_row now d ms) \<Longrightarrow> market_id m = d_market_id d \<Longrightarrow>
   d_market_id d \<in> set (map market_id ms) \<Longrightarrow>
   question m = d_question d \<and> outcomes m = d_outcomes d
   \<and> start_date m = d_start_date d \<and> end_date m = d_end_date d"
  by (auto simp: upsert_market_row_def refresh_def split: if_splits)

lemma kept_fields:
  "map discovered_at (upsert_market_row now d ms) =
     (if d_market_id d \<in> set (map market_id ms) then map discovered_at ms
      else map discovered_at ms @ [now])"
proof -
  have "map discovered_at (map (\<lambda>m. if market_id m = d_market_id d then refresh d m else m) ms)
        = map discovered_at ms"
    by (induction ms) (simp_all add: refresh_def)
  then show ?thesis by (simp add: upsert_market_row_def new_market_def)
qed

text \<open>
  C5. In a discovery run on a store whose market ids are pairwise distinct, a market id
  that two search terms match (a hit of each term that passed the validation filter) has
  exactly one row afterwards. The hits are deduplicated by market id across all terms
  before they are written, the market ids of the store stay pairwise distinct, and the
  upsert of a known market id adds no row: it keeps identity and discovery timestamp and
  sets the descriptive fields to those of the descriptor.
\<close>

theorem discovery_one_row_per_market:
  assumes "distinct (map market_id (markets s))"
  shows "(t1 \<in> set (all_terms cfg) \<and> t2 \<in> set (all_terms cfg)
          \<and> d1 \<in> set (term_hits cfg api t1) \<and> d2 \<in> set (term_hits cfg api t2)
          \<and> d_market_id d1 = mid \<and> d_market_id d2 = mid \<longrightarrow>
          length (filter (\<lambda>m. market_id m = mid) (markets (snd (snd (discover cfg api now s))))) = 1)
         \<and> distinct (map d_market_id
              (dedup_by_market_id (concat (map (term_hits cfg api) (all_terms cfg)))))
         \<and> distinct (map market_id (markets (snd (snd (discover cfg api now s)))))
         \<and> (d_market_id d \<in> set (map market_id (markets s)) \<longrightarrow>
              length (markets (upsertMarket now d s)) = length (markets s)
              \<and> map market_id (markets (upsertMarket now d s)) = map market_id (markets s)
              \<and> map discovered_at (markets (upsertMarket now d s)) = map discovered_at (markets s)
              \<and> length (filter (\<lambda>m. market_id m = d_market_id d
                                   \<and> question m = d_question d \<and> outcomes m = d_outcomes d
                                   \<and> start_date m = d_start_date d \<and> end_date m = d_end_date d)
                           (markets (upsertMarket now d s))) = 1)"
proof -
  let ?hits = "concat (map (term_hits cfg api) (all_terms cfg))"
  let ?unique = "dedup_by_market_id ?hits"
  let ?ms = "markets (snd (snd (discover cfg api now s)))"
  have ms: "?ms = fold (upsert_market_row now) ?unique (markets s)"
    by (simp add: discover_def Let_def markets_fold_upsertMarket)
  from fold_upsert_rows [OF assms, of now ?unique]
  have dist: "distinct (map market_id ?ms)"
    and ids: "set (map market_id ?ms) = set (map market_id (markets s)) \<union> set (map d_market_id ?unique)"
    by (simp_all add: ms)
  have uniq_ids: "set (map d_market_id ?unique) = set (map d_market_id ?hits)"
    using set_ids_dedup_fold [of ?hits "[]"] by (simp add: dedup_by_market_id_def)
  have part1: "length (filter (\<lambda>m. market_id m = mid) ?ms) = 1"
    if h: "t1 \<in> set (all_terms cfg)" "d1 \<in> set (term_hits cfg api t1)" "d_market_id d1 = mid"
  proof -
    have "d1 \<in> set ?hits" using h by auto
    then have "mid \<in> set (map d_market_id ?hits)" using h(3) by force
    then have "mid \<in> set (map market_id ?ms)" using ids uniq_ids by simp
    then show ?thesis using dist by (rule one_row_of_key [rotated])
  qed
  have part2: "distinct (map d_market_id ?unique)"
    using distinct_dedup_fold [of "[]" ?hits] by (simp add: dedup_by_market_id_def)
  have part4: "length (markets (upsertMarket now d s)) = length (markets s)
      \<and> map market_id (markets (upsertMarket now d s)) = map market_id (markets s)
      \<and> map discovered_at (markets (upsertMarket now d s)) = map discovered_at (markets s)
      \<and> length (filter (\<lambda>m. market_id m = d_market_id d
                           \<and> question m = d_question d \<and> outcomes m = d_outcomes d
                           \<and> start_date m = d_start_date d \<and> end_date m = d_end_date d)
                   (markets (upsertMarket now d s))) = 1"
    if k: "d_market_id d \<in> set (map market_id (markets s))"
  proof -
    let ?rows = "upsert_market_row now d (markets s)"
    have i: "map market_id ?rows = map market_id (markets s)"
      using k by (simp add: ids_upsert_market_row)
    have l: "length ?rows = length (markets s)"
      using k by (simp add: upsert_market_row_def)
    have a: "map discovered_at ?rows = map discovered_at (markets s)"
      using k by (simp add: kept_fields)
    have "filter (\<lambda>m. market_id m = d_market_id d
                           \<and> question m = d_question d \<and> outcomes m = d_outcomes d
                           \<and> start_date m = d_start_date d \<and> end_date m = d_end_date d) ?rows
          = filter (\<lambda>m. market_id m = d_market_id d) ?rows"
      by (rule filter_cong) (use refreshed_fields [OF _ _ k] in auto)
    moreover have "length (filter (\<lambda>m. market_id m = d_market_id d) ?rows) = 1"
      using assms k by (intro one_row_of_key) (simp_all add: i)
    ultimately show ?thesis using i l a by (simp add: upsertMarket_def)
  qed
  show ?thesis using part1 part2 dist part4 by blast
qed

theorem discovery_one_row_per_market_witness:
  "distinct (map market_id (markets empty_store))
   \<and> ''cdl'' \<in> set (all_terms scenario_discovery)
   \<and> ''OpTic Texas'' \<in> set (all_terms scenario_discovery)
   \<and> scenario_market \<in> set (term_hits scenario_discovery scenario_metadata ''cdl'')
   \<and> scenario_market \<in> set (term_hits scenario_discovery scenario_metadata ''OpTic Texas'')
   \<and> d_market_id scenario_market = ''M''
   \<and> length (filter (\<lambda>m. market_id m = ''M'')
        (markets (snd (snd (discover scenario_discovery scenario_metadata 1000 empty_store))))) = 1
   \<and> distinct (map market_id
        (markets \<lparr>markets = [new_market 1000 scenario_market], price_history = [], trades = []\<rparr>))
   \<and> d_market_id (scenario_market\<lparr>d_question := ''Will OpTic Texas win the cdl major II?''\<rparr>)
        \<in> set (map market_id
             (markets \<lparr>markets = [new_market 1000 scenario_market], price_history = [], trades = []\<rparr>))
   \<and> map question (markets (upsertMarket 2000
          (scenario_market\<lparr>d_question := ''Will OpTic Texas win the cdl major II?''\<rparr>)
          \<lparr>markets = [new_market 1000 scenario_market], price_history = [], trades = []\<rparr>))
        = [''Will OpTic Texas win the cdl major II?'']
   \<and> map discovered_at (markets (upsertMarket 2000
          (scenario_market\<lparr>d_question := ''Will OpTic Texas win the cdl major II?''\<rparr>)
          \<lparr>markets = [new_market 1000 scenario_market], price_history = [], trades = []\<rparr>))
        = [1000]"
proof -
  have t: "all_terms scenario_discovery = [''call of duty'', ''cdl'', ''OpTic Texas'', ''cdl major'']"
    by (simp add: all_terms_def scenario_discovery_def)
  have e: "distinct (map market_id (markets empty_store))"
    by (simp add: empty_store_def)
  have q: "map question (markets (upsertMarket 2000
          (scenario_market\<lparr>d_question := ''Will OpTic Texas win the cdl major II?''\<rparr>)
          \<lparr>markets = [new_market 1000 scenario_market], price_history = [], trades = []\<rparr>))
        = [''Will OpTic Texas win the cdl major II?'']"
    by (simp add: upsertMarket_def upsert_market_row_def new_market_def refresh_def)
  show ?thesis
    using discovery_one_row_per_market [OF e, where ?t1.0 = "''cdl''" and ?t2.0 = "''OpTic Texas''"
        and cfg = scenario_discovery and api = scenario_metadata and ?d1.0 = scenario_market
        and ?d2.0 = scenario_market and mid = "''M''" and now = 1000]
      discovery_one_row_per_market [where s = "\<lparr>markets = [new_market 1000 scenario_market],
          price_history = [], trades = []\<rparr>"
        and d = "scenario_market\<lparr>d_question := ''Will OpTic Texas win the cdl major II?''\<rparr>"
        and now = 2000]
      q
    by (simp add: t e scenario_hits scenario_market_def new_market_def)
qed

section \<open>Verification: RateLimiter\<close>

lemma length_filter_mono:
  "(\<And>x. x \<in> set xs \<Longrightarrow> P x \<Longrightarrow> Q x) \<Longrightarrow> length (filter P xs) \<le> length (filter Q xs)"
  by (induction xs) auto

lemma newer_is_prefix:
  "sorted (rev admitted) \<Longrightarrow>
   filter (\<lambda>a. c < a) admitted = takeWhile (\<lambda>a. c < (a::real)) admitted"
  using filter_equals_takeWhile_sorted_rev [of "\<lambda>x. x" admitted c] by simp

lemma takeWhile_reaches:
  assumes "0 < q" "q \<le> length (takeWhile P xs)"
  shows "q - 1 < length xs \<and> P (xs ! (q - 1))"
proof -
  have j: "q - 1 < length (takeWhile P xs)" using assms by simp
  have "length (takeWhile P xs) \<le> length xs" by (rule length_takeWhile_le)
  then have 1: "q - 1 < length xs" using j by simp
  have "takeWhile P xs ! (q - 1) \<in> set (takeWhile P xs)" using j by (rule nth_mem)
  then have "P (takeWhile P xs ! (q - 1))" by (rule set_takeWhileD [THEN conjunct2])
  then have 2: "P (xs ! (q - 1))" by (simp only: takeWhile_nth [OF j])
  show ?thesis using 1 2 by (rule conjI)
qed

lemma newer_than_qth:
  assumes "0 < q" "sorted (rev admitted)"
  shows "length (filter (\<lambda>a. admitted ! (q - 1) < (a::real)) admitted) < q"
proof (rule ccontr)
  assume "\<not> length (filter (\<lambda>a. admitted ! (q - 1) < a) admitted) < q"
  then have "q \<le> length (takeWhile (\<lambda>a. admitted ! (q - 1) < a) admitted)"
    using newer_is_prefix [OF assms(2)] by simp
  from takeWhile_reaches [OF assms(1) this] show False by simp
qed

lemma latest_first:
  assumes "sorted (rev admitted)" "a \<in> set admitted"
  shows "a \<le> entry_time admitted arrival"
proof (cases admitted)
  case Nil
  then show ?thesis using assms by simp
next
  case (Cons x xs)
  have "\<forall>y\<in>set xs. y \<le> x" using assms(1) Cons by (simp add: sorted_append)
  then have "a \<le> x" using assms(2) Cons by auto
  then show ?thesis using Cons by (simp add: entry_time_def)
qed

lemma arrival_le_entry: "arrival \<le> entry_time admitted arrival"
  by (cases admitted) (simp_all add: entry_time_def)

lemma rolling_count_at_entry:
  assumes "sorted (rev admitted)"
  shows "rolling_count admitted (entry_time admitted arrival)
         = length (filter (\<lambda>a. entry_time admitted arrival - quota_window < a) admitted)"
proof -
  have "filter (\<lambda>a. entry_time admitted arrival - quota_window < a
                   \<and> a \<le> entry_time admitted arrival) admitted
        = filter (\<lambda>a. entry_time admitted arrival - quota_window < a) admitted"
    by (rule filter_cong) (use latest_first [OF assms] in auto)
  then show ?thesis by (simp add: rolling_count_def)
qed

lemma admission_room:
  assumes q: "0 < q" and s: "sorted (rev admitted)"
  shows "entry_time admitted arrival \<le> admission_time q admitted arrival
         \<and> length (filter (\<lambda>a. admission_time q admitted arrival - quota_window < a) admitted) < q"
proof (cases "rolling_count admitted (entry_time admitted arrival) < q")
  case True
  then show ?thesis
    using rolling_count_at_entry [OF s, of arrival] by (simp add: admission_time_def)
next
  case False
  let ?t0 = "entry_time admitted arrival"
  have t: "admission_time q admitted arrival = admitted ! (q - 1) + quota_window"
    using False by (simp add: admission_time_def)
  have "q \<le> length (filter (\<lambda>a. ?t0 - quota_window < a) admitted)"
    using False rolling_count_at_entry [OF s, of arrival] by simp
  then have "q \<le> length (takeWhile (\<lambda>a. ?t0 - quota_window < a) admitted)"
    using newer_is_prefix [OF s] by simp
  from takeWhile_reaches [OF q this] have "?t0 - quota_window < admitted ! (q - 1)" by simp
  then have 1: "?t0 \<le> admission_time q admitted arrival" by (simp add: t)
  have 2: "length (filter (\<lambda>a. admission_time q admitted arrival - quota_window < a) admitted) < q"
    using newer_than_qth [OF q s] by (simp add: t)
  show ?thesis using 1 2 by simp
qed

lemma admission_keeps_quota:
  assumes q: "0 < q" and inv: "within_quota q admitted"
  shows "arrival \<le> admission_time q admitted arrival
         \<and> within_quota q (admission_time q admitted arrival # admitted)"
proof -
  let ?t = "admission_time q admitted arrival"
  have s: "sorted (rev admitted)" and c: "\<And>w. rolling_count admitted w \<le> q"
    using inv by (simp_all add: within_quota_def)
  from admission_room [OF q s, of arrival]
  have e: "entry_time admitted arrival \<le> ?t"
    and room: "length (filter (\<lambda>a. ?t - quota_window < a) admitted) < q" by simp_all
  have arr: "arrival \<le> ?t" using arrival_le_entry [of arrival admitted] e by simp
  have below: "\<And>a. a \<in> set admitted \<Longrightarrow> a \<le> ?t"
    using latest_first [OF s, of _ arrival] e by force
  have s': "sorted (rev (?t # admitted))"
    using s below by (simp add: sorted_append)
  have c': "rolling_count (?t # admitted) w \<le> q" for w
  proof (cases "w - quota_window < ?t \<and> ?t \<le> w")
    case False
    then have "rolling_count (?t # admitted) w = rolling_count admitted w"
      by (auto simp: rolling_count_def)
    then show ?thesis using c [of w] by simp
  next
    case True
    have "length (filter (\<lambda>a. w - quota_window < a \<and> a \<le> w) admitted)
          \<le> length (filter (\<lambda>a. ?t - quota_window < a) admitted)"
      by (rule length_filter_mono) (use True in auto)
    then have "rolling_count admitted w < q" using room by (simp add: rolling_count_def)
    moreover have "rolling_count (?t # admitted) w = Suc (rolling_count admitted w)"
      using True by (simp add: rolling_count_def)
    ultimately show ?thesis by simp
  qed
  show ?thesis using arr s' c' by (simp add: within_quota_def)
qed

lemma within_quota_Nil: "within_quota q []"
  by (simp add: within_quota_def rolling_count_def)

lemma serve_keeps_quota:
  assumes pos: "\<forall>c. 0 < quota c"
  shows "(\<forall>c. within_quota (quota c) (L c)) \<Longrightarrow>
         \<exists>ts L'. serve quota calls L = Some (ts, L')
           \<and> length ts = length calls
           \<and> list_all2 (\<lambda>call t. snd call \<le> t) calls ts
           \<and> (\<forall>c. L' c = rev (admissions_of c calls ts) @ L c)
           \<and> (\<forall>c. within_quota (quota c) (L' c))"
proof (induction calls arbitrary: L)
  case Nil
  then show ?case by (simp add: admissions_of_def)
next
  case (Cons call calls)
  obtain c arrival where call: "call = (c, arrival)" by (cases call)
  let ?t = "admission_time (quota c) (L c) arrival"
  let ?L = "L(c := ?t # L c)"
  have q: "0 < quota c" using pos by simp
  have acq: "acquire quota c arrival L = Some (?t, ?L)"
    using q by (simp add: acquire_def Let_def)
  from admission_keeps_quota [OF q, of "L c" arrival] Cons.prems
  have arr: "arrival \<le> ?t" and w: "within_quota (quota c) (?t # L c)" by simp_all
  have inv: "\<forall>d. within_quota (quota d) (?L d)" using Cons.prems w by simp
  from Cons.IH [OF inv] obtain ts L' where
    sv: "serve quota calls ?L = Some (ts, L')"
    and len: "length ts = length calls"
    and late: "list_all2 (\<lambda>call t. snd call \<le> t) calls ts"
    and log: "\<forall>d. L' d = rev (admissions_of d calls ts) @ ?L d"
    and fin: "\<forall>d. within_quota (quota d) (L' d)"
    by blast
  have res: "serve quota (call # calls) L = Some (?t # ts, L')"
    using acq sv by (simp add: call)
  have log': "\<forall>d. L' d = rev (admissions_of d (call # calls) (?t # ts)) @ L d"
    using log by (simp add: admissions_of_def call)
  show ?case using res len late arr log' fin by (simp add: call)
qed

text \<open>
  C2. For every assignment of positive quotas to the endpoint classes and every sequence
  of calls of \<open>acquire\<close>, served in any order of concurrent callers: every call is
  admitted, none before its arrival, and for every class and every trailing window of 10
  seconds the number of admitted calls of the class within the window is at most the
  quota of the class.
\<close>

theorem quota_never_exceeded:
  assumes "\<forall>c. 0 < quota c"
  shows "\<exists>ts L. serve quota calls new_limiter = Some (ts, L)
           \<and> length ts = length calls
           \<and> list_all2 (\<lambda>call t. snd call \<le> t) calls ts
           \<and> (\<forall>c. L c = rev (admissions_of c calls ts))
           \<and> (\<forall>c w. rolling_count (admissions_of c calls ts) w \<le> quota c)"
proof -
  have "\<forall>c. within_quota (quota c) (new_limiter c)"
    by (simp add: new_limiter_def within_quota_Nil)
  from serve_keeps_quota [OF assms this, of calls] obtain ts L where
    sv: "serve quota calls new_limiter = Some (ts, L)"
    and len: "length ts = length calls"
    and late: "list_all2 (\<lambda>call t. snd call \<le> t) calls ts"
    and log: "\<forall>c. L c = rev (admissions_of c calls ts) @ new_limiter c"
    and fin: "\<forall>c. within_quota (quota c) (L c)"
    by blast
  have log': "\<forall>c. L c = rev (admissions_of c calls ts)" using log by (simp add: new_limiter_def)
  have "rolling_count (admissions_of c calls ts) w \<le> quota c" for c w
  proof -
    have "rolling_count (L c) w \<le> quota c" using fin by (simp add: within_quota_def)
    moreover have "rolling_count (L c) w = rolling_count (admissions_of c calls ts) w"
      using log' by (simp add: rolling_count_def rev_filter [symmetric])
    ultimately show ?thesis by simp
  qed
  then show ?thesis using sv len late log' by blast
qed

theorem quota_never_exceeded_witness:
  "(\<forall>c::endpoint_class. (0::nat) < 2)
   \<and> (\<exists>ts L. serve (\<lambda>c. 2)
          [(Data_trades, 1), (Data_trades, 0), (Gamma_markets, 1), (Data_trades, 2)] new_limiter = Some (ts, L)
        \<and> ts = [1, 1, 1, 11]
        \<and> list_all2 (\<lambda>call t. snd call \<le> t)
            [(Data_trades, 1), (Data_trades, 0), (Gamma_markets, 1), (Data_trades, 2)] ts
        \<and> (\<forall>c w. rolling_count (admissions_of c
            [(Data_trades, 1), (Data_trades, 0), (Gamma_markets, 1), (Data_trades, 2)] ts) w \<le> 2))
   \<and> (\<forall>c. 0 < readme_quota c)
   \<and> (\<exists>ts L. serve readme_quota
          [(Data_trades, 0), (CLOB_prices, 0), (Data_trades, 0)] new_limiter = Some (ts, L)
        \<and> ts = [0, 0, 0]
        \<and> (\<forall>c w. rolling_count (admissions_of c
            [(Data_trades, 0), (CLOB_prices, 0), (Data_trades, 0)] ts) w \<le> readme_quota c))"
proof -
  let ?calls = "[(Data_trades, 1), (Data_trades, 0), (Gamma_markets, 1), (Data_trades, 2 :: real)]"
  let ?few = "[(Data_trades, 0), (CLOB_prices, 0), (Data_trades, 0 :: real)]"
  have two: "\<forall>c::endpoint_class. (0::nat) < (\<lambda>c. 2) c" by simp
  have pos: "\<forall>c. 0 < readme_quota c"
  proof
    fix c show "0 < readme_quota c" by (cases c) simp_all
  qed
  have a: "map_option fst (serve (\<lambda>c. 2) ?calls new_limiter) = Some [1, 1, 1, 11]"
    by (simp add: acquire_def admission_time_def entry_time_def rolling_count_def quota_window_def
        Let_def new_limiter_def)
  have b: "map_option fst (serve readme_quota ?few new_limiter) = Some [0, 0, 0]"
    by (simp add: acquire_def admission_time_def entry_time_def rolling_count_def quota_window_def
        Let_def new_limiter_def)
  show ?thesis
    using quota_never_exceeded [OF two, of ?calls] quota_never_exceeded [OF pos, of ?few] a b pos
    by auto
qed

end
